theory Spec2Isabelle
  imports Complex_Main "HOL-Library.Word"
begin

unbundle bit_operations_syntax

section \<open>The DSView sample snapshot store\<close>

text \<open>
  A shallow embedding of \<^verbatim>\<open>pv/data/snapshot.cpp\<close> (class \<^verbatim>\<open>Snapshot\<close>) and
  \<^verbatim>\<open>pv/data/dsosnapshot.cpp\<close> (class \<^verbatim>\<open>DsoSnapshot\<close>).  The C++ object is a record,
  every member function takes the record (and the heap, where it allocates, frees or
  copies) and returns the updated one.  \<^verbatim>\<open>uint64_t\<close> is \<open>64 word\<close>, \<^verbatim>\<open>unsigned int\<close> is
  \<open>32 word\<close>, \<^verbatim>\<open>uint8_t\<close> is \<open>8 word\<close>: \<open>+\<close>, \<open>-\<close>, \<open>*\<close> wrap and \<open>div\<close> is the unsigned
  division, as in the source.  An assertion that fails, a write through a null pointer
  and an access outside an allocated block are values of the type \<open>fault\<close>.
  The mutex of the source is not modelled: every operation runs to completion.
\<close>

type_synonym u64 = "64 word"
type_synonym u32 = "32 word"
type_synonym u8 = "8 word"
type_synonym addr = nat

datatype fault = AssertFailed | NullDeref | OutOfBounds | UndefinedShift | DivideByZero

subsection \<open>The heap: malloc, free, memcpy\<close>

text \<open>
  \<open>live\<close> lists the allocated blocks with their sizes in bytes, \<open>mem\<close> gives the byte
  at an offset of a block, \<open>brk\<close> is the next fresh address and \<open>plan\<close> says which of
  the coming calls of \<^verbatim>\<open>malloc\<close> succeed (when the plan is used up they all do).  A
  fresh block is not initialised: it holds whatever \<open>mem\<close> held.  A pointer is an
  \<open>addr option\<close>, \<open>None\<close> being \<^verbatim>\<open>NULL\<close>.
\<close>

record heap =
  live :: "(addr \<times> nat) list"
  mem :: "addr \<Rightarrow> nat \<Rightarrow> u8"
  brk :: addr
  plan :: "bool list"

definition malloc :: "nat \<Rightarrow> heap \<Rightarrow> addr option \<times> heap" where
  "malloc n h =
     (case plan h of
        [] \<Rightarrow> (Some (brk h), h\<lparr>live := (brk h, n) # live h, brk := Suc (brk h)\<rparr>)
      | ok # rest \<Rightarrow>
          if ok
          then (Some (brk h),
                h\<lparr>live := (brk h, n) # live h, brk := Suc (brk h), plan := rest\<rparr>)
          else (None, h\<lparr>plan := rest\<rparr>))"

definition free :: "addr \<Rightarrow> heap \<Rightarrow> heap" where
  "free p h = h\<lparr>live := filter (\<lambda>b. fst b \<noteq> p) (live h)\<rparr>"

definition block_size :: "heap \<Rightarrow> addr \<Rightarrow> nat option" where
  "block_size h p = map_of (live h) p"

text \<open>\<^verbatim>\<open>memcpy((uint8_t*)dst + off, src, n)\<close>: the source is the list of bytes behind
  the source pointer.\<close>

definition memcpy :: "heap \<Rightarrow> addr option \<Rightarrow> nat \<Rightarrow> u8 list \<Rightarrow> nat \<Rightarrow> fault + heap" where
  "memcpy h dst off src n =
     (case dst of
        None \<Rightarrow> Inl NullDeref
      | Some p \<Rightarrow>
          (case block_size h p of
             None \<Rightarrow> Inl OutOfBounds
           | Some sz \<Rightarrow>
               if off + n \<le> sz \<and> n \<le> length src
               then Inr (h\<lparr>mem := (mem h)(p := (\<lambda>k. if off \<le> k \<and> k < off + n
                                                     then src ! (k - off) else mem h p k))\<rparr>)
               else Inl OutOfBounds))"

subsection \<open>The data model\<close>

text \<open>\<^verbatim>\<open>struct Envelope\<close>: one level of a channel's min/max pyramid.  The field
  \<^verbatim>\<open>length\<close> is called \<open>env_length\<close> here.  The min/max values stored in the array
  behind \<open>samples\<close> are not part of the model; the array is a block of the heap.\<close>

record Envelope =
  env_length :: u64
  data_length :: u64
  samples :: "addr option"

definition zero_envelope :: Envelope where
  "zero_envelope = \<lparr>env_length = 0, data_length = 0, samples = None\<rparr>"

text \<open>The members of \<^verbatim>\<open>Snapshot\<close> and \<^verbatim>\<open>DsoSnapshot\<close>, without the leading
  underscore.  \<open>envelope_levels s i level\<close> is \<^verbatim>\<open>_envelope_levels[i][level]\<close>.\<close>

record snapshot =
  data :: "addr option"
  capacity :: u64
  channel_num :: u32
  sample_count :: u64
  total_sample_count :: u64
  ring_sample_count :: u64
  unit_size :: int
  unit_bytes :: u8
  unit_pitch :: "16 word"
  memory_failed :: bool
  last_ended :: bool
  have_data :: bool
  ch_index :: "nat list"
  ch_enable :: "(int \<times> bool) list"
  envelope_en :: bool
  envelope_done :: bool
  instant :: bool
  envelope_levels :: "nat \<Rightarrow> nat \<Rightarrow> Envelope"

text \<open>\<^verbatim>\<open>struct sr_datafeed_dso\<close>, as far as the snapshot reads it: the bytes behind
  \<^verbatim>\<open>dso.data\<close>, \<^verbatim>\<open>dso.num_samples\<close> (as the \<^verbatim>\<open>uint64_t\<close> that \<^verbatim>\<open>append_data\<close>
  receives) and \<^verbatim>\<open>dso.samplerate_tog\<close>.\<close>

record sr_datafeed_dso =
  dso_data :: "u8 list"
  num_samples :: u64
  samplerate_tog :: bool

definition EnvelopeScalePower :: nat where
  "EnvelopeScalePower = 8"

definition EnvelopeScaleFactor :: u64 where
  "EnvelopeScaleFactor = push_bit EnvelopeScalePower 1"

definition EnvelopeDataUnit :: u64 where
  "EnvelopeDataUnit = 4 * 1024"

definition VrmsScaleFactor :: nat where
  "VrmsScaleFactor = push_bit 8 1"

text \<open>\<^verbatim>\<open>sizeof(EnvelopeSample)\<close>: a \<^verbatim>\<open>uint8_t\<close> minimum and a \<^verbatim>\<open>uint8_t\<close> maximum.\<close>

definition sizeof_EnvelopeSample :: u64 where
  "sizeof_EnvelopeSample = 2"

text \<open>The constructors: \<^verbatim>\<open>Snapshot(unit_size, total_sample_count, channel_num)\<close> and
  \<^verbatim>\<open>DsoSnapshot() : Snapshot(sizeof(uint16_t), 1, 1)\<close>.\<close>

definition Snapshot :: "int \<Rightarrow> u64 \<Rightarrow> u32 \<Rightarrow> fault + snapshot" where
  "Snapshot usz tsc chn =
     (if \<not> 0 < usz then Inl AssertFailed
      else Inr \<lparr>data = None, capacity = 0, channel_num = chn, sample_count = 0,
                total_sample_count = tsc, ring_sample_count = 0, unit_size = usz,
                unit_bytes = 1, unit_pitch = 0, memory_failed = False, last_ended = True,
                have_data = False, ch_index = [], ch_enable = [], envelope_en = False,
                envelope_done = False, instant = False,
                envelope_levels = (\<lambda>i level. zero_envelope)\<rparr>)"

definition DsoSnapshot :: snapshot where
  "DsoSnapshot =
     \<lparr>data = None, capacity = 0, channel_num = 1, sample_count = 0,
      total_sample_count = 1, ring_sample_count = 0, unit_size = 2,
      unit_bytes = 1, unit_pitch = 0, memory_failed = False, last_ended = True,
      have_data = False, ch_index = [], ch_enable = [], envelope_en = False,
      envelope_done = False, instant = False,
      envelope_levels = (\<lambda>i level. zero_envelope)\<rparr>"

subsection \<open>snapshot.cpp\<close>

definition free_data :: "heap \<Rightarrow> snapshot \<Rightarrow> heap \<times> snapshot" where
  "free_data h s =
     (case data s of
        Some p \<Rightarrow> (free p h, s\<lparr>data := None, capacity := 0, sample_count := 0, ch_index := []\<rparr>)
      | None \<Rightarrow> (h, s\<lparr>ch_index := []\<rparr>))"

definition get_sample_count :: "snapshot \<Rightarrow> u64" where
  "get_sample_count s = sample_count s"

definition empty :: "snapshot \<Rightarrow> bool" where
  "empty s = (if get_sample_count s = 0 then True else False)"

definition ring_start :: "snapshot \<Rightarrow> u64" where
  "ring_start s =
     (if sample_count s < total_sample_count s then 0 else ring_sample_count s)"

definition ring_end :: "snapshot \<Rightarrow> u64" where
  "ring_end s =
     (if sample_count s = 0 then 0
      else if ring_sample_count s = 0 then total_sample_count s - 1
      else ring_sample_count s - 1)"

definition get_ring_start :: "snapshot \<Rightarrow> u64" where
  "get_ring_start s = ring_start s"

definition get_ring_end :: "snapshot \<Rightarrow> u64" where
  "get_ring_end s = ring_end s"

definition capture_ended :: "snapshot \<Rightarrow> snapshot" where
  "capture_ended s = s\<lparr>last_ended := True\<rparr>"

subsection \<open>dsosnapshot.cpp: release, initialisation, setup and append\<close>

text \<open>\<open>ScaleStepCount\<close>, the number of levels of a channel's pyramid, is declared in
  \<^verbatim>\<open>dsosnapshot.h\<close>, which is not among the sources: it is a parameter of every
  function that loops over the levels.\<close>

definition envelope_pointers :: "nat \<Rightarrow> snapshot \<Rightarrow> addr list" where
  "envelope_pointers ScaleStepCount s =
     concat (map (\<lambda>i. concat (map (\<lambda>level.
         (case samples (envelope_levels s i level) of Some p \<Rightarrow> [p] | None \<Rightarrow> []))
       [0..<ScaleStepCount])) [0..<unat (channel_num s)])"

definition free_envelop :: "nat \<Rightarrow> heap \<Rightarrow> snapshot \<Rightarrow> heap \<times> snapshot" where
  "free_envelop ScaleStepCount h s =
     (fold free (envelope_pointers ScaleStepCount s) h,
      s\<lparr>envelope_levels := (\<lambda>i level. zero_envelope)\<rparr>)"

definition init_all :: "nat \<Rightarrow> snapshot \<Rightarrow> snapshot" where
  "init_all ScaleStepCount s =
     s\<lparr>sample_count := 0, ring_sample_count := 0, memory_failed := False,
       last_ended := True, envelope_done := False, ch_enable := [],
       envelope_levels := (\<lambda>i level.
          if i < unat (channel_num s) \<and> level < ScaleStepCount
          then (envelope_levels s i level)\<lparr>env_length := 0, data_length := 0\<rparr>
          else envelope_levels s i level)\<rparr>"

definition init :: "nat \<Rightarrow> snapshot \<Rightarrow> snapshot" where
  "init ScaleStepCount s = init_all ScaleStepCount s"

definition clear :: "nat \<Rightarrow> heap \<Rightarrow> snapshot \<Rightarrow> heap \<times> snapshot" where
  "clear ScaleStepCount h s =
     (let (h1, s1) = free_data h s;
          (h2, s2) = free_envelop ScaleStepCount h1 s1
      in (h2, (init_all ScaleStepCount s2)\<lparr>have_data := False\<rparr>))"

definition append_data :: "heap \<Rightarrow> snapshot \<Rightarrow> u8 list \<Rightarrow> u64 \<Rightarrow> bool \<Rightarrow> fault + heap \<times> snapshot" where
  "append_data h s src smp inst =
     (if inst then
        (let smp' = (if sample_count s + smp > total_sample_count s
                     then total_sample_count s - sample_count s else smp)
         in case memcpy h (data s) (unat (sample_count s * ucast (channel_num s))) src
                   (unat (smp' * ucast (channel_num s))) of
              Inl f \<Rightarrow> Inl f
            | Inr h' \<Rightarrow> Inr (h', s\<lparr>sample_count := sample_count s + smp'\<rparr>))
      else
        (case memcpy h (data s) 0 src (unat (smp * ucast (channel_num s))) of
           Inl f \<Rightarrow> Inl f
         | Inr h' \<Rightarrow> Inr (h', s\<lparr>sample_count := smp\<rparr>)))"

text \<open>\<^verbatim>\<open>reallocate_envelope\<close>; \<open>new_data_length\<close> is its local constant.  The call of
  \<^verbatim>\<open>realloc\<close> is commented out in the source, so only the field \<^verbatim>\<open>data_length\<close>
  changes.\<close>

definition new_data_length :: "Envelope \<Rightarrow> u64" where
  "new_data_length e =
     ((env_length e + EnvelopeDataUnit - 1) div EnvelopeDataUnit) * EnvelopeDataUnit"

definition reallocate_envelope :: "Envelope \<Rightarrow> Envelope" where
  "reallocate_envelope e =
     (if new_data_length e > data_length e then e\<lparr>data_length := new_data_length e\<rparr>
      else e)"

text \<open>The loop over the higher levels of one channel
  (\<^verbatim>\<open>for (level = 1; level < ScaleStepCount; level++)\<close>): \<open>lv\<close> is the channel's row
  \<^verbatim>\<open>_envelope_levels[i]\<close>, the first argument counts the iterations left.  The \<^verbatim>\<open>break\<close>
  leaves the levels above untouched.  \<^verbatim>\<open>prev_length\<close> only says where the min/max values
  are written, which the model leaves out.\<close>

fun higher_levels :: "nat \<Rightarrow> nat \<Rightarrow> (nat \<Rightarrow> Envelope) \<Rightarrow> (nat \<Rightarrow> Envelope)" where
  "higher_levels 0 level lv = lv"
| "higher_levels (Suc n) level lv =
     (let el = lv (level - 1);
          e = (lv level)\<lparr>env_length := env_length el div EnvelopeScaleFactor\<rparr>
      in if env_length e = 0 then lv(level := e)
         else higher_levels n (Suc level) (lv(level := reallocate_envelope e)))"

text \<open>The loop over the channels (\<^verbatim>\<open>for (i = 0; i < _channel_num; i++)\<close>).  The result
  says whether the loop ran to its end (\<open>True\<close>) or the function returned from inside it
  (\<^verbatim>\<open>if (e0.length == 0) return;\<close>).\<close>

fun envelope_channels ::
  "nat \<Rightarrow> u64 \<Rightarrow> nat \<Rightarrow> nat \<Rightarrow> (nat \<Rightarrow> nat \<Rightarrow> Envelope) \<Rightarrow> (nat \<Rightarrow> nat \<Rightarrow> Envelope) \<times> bool" where
  "envelope_channels ScaleStepCount sc 0 i lvs = (lvs, True)"
| "envelope_channels ScaleStepCount sc (Suc n) i lvs =
     (let e0 = (lvs i 0)\<lparr>env_length := sc div EnvelopeScaleFactor\<rparr>
      in if env_length e0 = 0 then (lvs(i := (lvs i)(0 := e0)), False)
         else envelope_channels ScaleStepCount sc n (Suc i)
                (lvs(i := higher_levels (ScaleStepCount - 1) 1
                             ((lvs i)(0 := reallocate_envelope e0)))))"

text \<open>\<^verbatim>\<open>append_payload_to_envelope_levels(header)\<close>.  \<^verbatim>\<open>header\<close> only chooses
  \<^verbatim>\<open>prev_length\<close>, so the lengths and capacities do not depend on it.\<close>

definition append_payload_to_envelope_levels :: "nat \<Rightarrow> bool \<Rightarrow> snapshot \<Rightarrow> snapshot" where
  "append_payload_to_envelope_levels ScaleStepCount header s =
     (case envelope_channels ScaleStepCount (sample_count s) (unat (channel_num s)) 0
             (envelope_levels s) of
        (lvs, finished) \<Rightarrow>
          if finished then s\<lparr>envelope_levels := lvs, envelope_done := True\<rparr>
          else s\<lparr>envelope_levels := lvs\<rparr>)"

definition append_payload ::
  "nat \<Rightarrow> heap \<Rightarrow> snapshot \<Rightarrow> sr_datafeed_dso \<Rightarrow> fault + heap \<times> snapshot" where
  "append_payload ScaleStepCount h s dso =
     (if channel_num s > 0 \<and> num_samples dso \<noteq> 0 then
        (case append_data h s (dso_data dso) (num_samples dso) (instant s) of
           Inl f \<Rightarrow> Inl f
         | Inr (h', s') \<Rightarrow>
             Inr (h', (if envelope_en s'
                       then append_payload_to_envelope_levels ScaleStepCount (samplerate_tog dso) s'
                       else s')\<lparr>have_data := True\<rparr>))
      else Inr (h, s))"

definition enable_envelope :: "nat \<Rightarrow> bool \<Rightarrow> snapshot \<Rightarrow> snapshot" where
  "enable_envelope ScaleStepCount enable s =
     (if \<not> envelope_done s \<and> enable
      then append_payload_to_envelope_levels ScaleStepCount True s
      else s)\<lparr>envelope_en := enable\<rparr>"

text \<open>The allocation loops of \<^verbatim>\<open>first_payload\<close>.  \<open>alloc_levels\<close> is the loop over the
  levels of one channel, \<open>alloc_channels\<close> the loop over the channels; the last component
  of the result is \<^verbatim>\<open>isOk\<close>.\<close>

fun alloc_levels ::
  "nat \<Rightarrow> nat \<Rightarrow> u64 \<Rightarrow> heap \<Rightarrow> (nat \<Rightarrow> Envelope) \<Rightarrow> heap \<times> (nat \<Rightarrow> Envelope) \<times> bool" where
  "alloc_levels 0 level envelop_count h lv = (h, lv, True)"
| "alloc_levels (Suc n) level envelop_count h lv =
     (let cnt = ((envelop_count + EnvelopeDataUnit - 1) div EnvelopeDataUnit) * EnvelopeDataUnit
      in case malloc (unat (cnt * sizeof_EnvelopeSample)) h of
           (None, h') \<Rightarrow> (h', lv(level := (lv level)\<lparr>samples := None\<rparr>), False)
         | (Some p, h') \<Rightarrow>
             alloc_levels n (Suc level) (cnt div EnvelopeScaleFactor) h'
               (lv(level := (lv level)\<lparr>samples := Some p\<rparr>)))"

fun alloc_channels ::
  "nat \<Rightarrow> u64 \<Rightarrow> nat \<Rightarrow> nat \<Rightarrow> heap \<Rightarrow> (nat \<Rightarrow> nat \<Rightarrow> Envelope)
     \<Rightarrow> heap \<times> (nat \<Rightarrow> nat \<Rightarrow> Envelope) \<times> bool" where
  "alloc_channels ScaleStepCount tsc 0 i h lvs = (h, lvs, True)"
| "alloc_channels ScaleStepCount tsc (Suc n) i h lvs =
     (case alloc_levels ScaleStepCount 0 (tsc div EnvelopeScaleFactor) h (lvs i) of
        (h', lv, isOk) \<Rightarrow>
          if \<not> isOk then (h', lvs(i := lv), False)
          else alloc_channels ScaleStepCount tsc n (Suc i) h' (lvs(i := lv)))"

text \<open>\<^verbatim>\<open>first_payload(dso, total_sample_count, ch_enable, instant)\<close>.  The map
  \<^verbatim>\<open>ch_enable\<close> is its list of entries.  \<open>setup_alloc\<close> is the block guarded by
  \<^verbatim>\<open>if (re_alloc || size != _capacity)\<close>; it returns \<^verbatim>\<open>isOk\<close> as its last component.\<close>

definition setup_alloc :: "nat \<Rightarrow> heap \<Rightarrow> snapshot \<Rightarrow> u64 \<Rightarrow> heap \<times> snapshot \<times> bool" where
  "setup_alloc ScaleStepCount h s sz =
     (case free_data h s of
        (h1, s1) \<Rightarrow>
          (case malloc (unat sz) h1 of
             (Some p, h2) \<Rightarrow>
               (case free_envelop ScaleStepCount h2 (s1\<lparr>data := Some p\<rparr>) of
                  (h3, s3) \<Rightarrow>
                    (case alloc_channels ScaleStepCount (total_sample_count s3)
                            (unat (channel_num s3)) 0 h3 (envelope_levels s3) of
                       (h4, lvs, isOk) \<Rightarrow> (h4, s3\<lparr>envelope_levels := lvs\<rparr>, isOk)))
           | (None, h2) \<Rightarrow> (h2, s1\<lparr>data := None\<rparr>, True)))"

definition first_payload ::
  "nat \<Rightarrow> heap \<Rightarrow> snapshot \<Rightarrow> sr_datafeed_dso \<Rightarrow> u64 \<Rightarrow> (int \<times> bool) list \<Rightarrow> bool
     \<Rightarrow> fault + heap \<times> snapshot" where
  "first_payload ScaleStepCount h s dso tsc che inst =
     (let chn = (of_nat (length (filter snd che)) :: u32)
      in if \<not> chn \<noteq> 0 then Inl AssertFailed
         else
           (let re_alloc = (tsc \<noteq> total_sample_count s \<or> chn \<noteq> channel_num s);
                s0 = s\<lparr>total_sample_count := tsc, channel_num := chn, instant := inst,
                       ch_enable := che\<rparr>;
                sz = total_sample_count s0 * ucast (channel_num s0) + 8
            in case (if re_alloc \<or> sz \<noteq> capacity s0 then setup_alloc ScaleStepCount h s0 sz
                     else (h, s0, True)) of
                 (h1, s1, isOk) \<Rightarrow>
                   if isOk then
                     (case append_payload ScaleStepCount h1
                             (s1\<lparr>capacity := sz, memory_failed := False\<rparr>) dso of
                        Inl f \<Rightarrow> Inl f
                      | Inr (h2, s2) \<Rightarrow> Inr (h2, s2\<lparr>last_ended := False\<rparr>))
                   else
                     (case free_data h1 s1 of
                        (h2, s2) \<Rightarrow>
                          (case free_envelop ScaleStepCount h2 s2 of
                             (h3, s3) \<Rightarrow> Inr (h3, s3\<lparr>memory_failed := True\<rparr>)))))"

subsection \<open>dsosnapshot.cpp: block decomposition\<close>

text \<open>Modelled from the spec: \<^verbatim>\<open>LeafBlockPower\<close>, \<^verbatim>\<open>LeafBlockSamples\<close> and \<^verbatim>\<open>LeafMask\<close>
  are declared in \<^verbatim>\<open>dsosnapshot.h\<close>, which is not among the sources.  The spec has one
  constant block size: \<open>LeafBlockPower\<close> is a parameter, the block size is
  \<^verbatim>\<open>1 << LeafBlockPower\<close> and the mask is \<^verbatim>\<open>~(~0ULL << LeafBlockPower)\<close>.\<close>

definition LeafBlockSamples :: "nat \<Rightarrow> u64" where
  "LeafBlockSamples LeafBlockPower = push_bit LeafBlockPower 1"

definition LeafMask :: "nat \<Rightarrow> u64" where
  "LeafMask LeafBlockPower = NOT (push_bit LeafBlockPower (NOT 0))"

definition get_unit_bytes :: "snapshot \<Rightarrow> u8" where
  "get_unit_bytes s = unit_bytes s"

definition get_channel_num :: "snapshot \<Rightarrow> u32" where
  "get_channel_num s = channel_num s"

text \<open>The local \<^verbatim>\<open>size\<close> of \<^verbatim>\<open>get_block_num\<close> and \<^verbatim>\<open>get_block_size\<close>.\<close>

definition stored_bytes :: "snapshot \<Rightarrow> u64" where
  "stored_bytes s = sample_count s * ucast (get_unit_bytes s) * ucast (get_channel_num s)"

text \<open>\<^verbatim>\<open>get_block_num\<close> returns an \<^verbatim>\<open>int\<close>: the \<^verbatim>\<open>uint64_t\<close> sum is cut to 32 bits and
  read as a signed number.\<close>

definition get_block_num :: "nat \<Rightarrow> snapshot \<Rightarrow> int" where
  "get_block_num LeafBlockPower s =
     (let sz = stored_bytes s
      in sint (ucast (drop_bit LeafBlockPower sz
                        + (if sz AND LeafMask LeafBlockPower \<noteq> 0 then 1 else 0)) :: 32 word))"

definition get_block_size :: "nat \<Rightarrow> snapshot \<Rightarrow> int \<Rightarrow> fault + u64" where
  "get_block_size LeafBlockPower s block_index =
     (if \<not> block_index < get_block_num LeafBlockPower s then Inl AssertFailed
      else if block_index < get_block_num LeafBlockPower s - 1
      then Inr (LeafBlockSamples LeafBlockPower)
      else
        (let sz = stored_bytes s
         in if sz mod LeafBlockSamples LeafBlockPower = 0
            then Inr (LeafBlockSamples LeafBlockPower)
            else Inr (sz mod LeafBlockSamples LeafBlockPower)))"

subsection \<open>dsosnapshot.cpp: envelope sections\<close>

text \<open>\<^verbatim>\<open>struct EnvelopeSection\<close>; \<open>sec_samples\<close> is the pointer \<^verbatim>\<open>samples + start\<close>, kept
  as the pointer and the element offset.\<close>

record EnvelopeSection =
  sec_start :: u64
  sec_scale :: nat
  sec_length :: u64
  sec_samples :: "addr option \<times> u64"

text \<open>\<^verbatim>\<open>get_envelope_section(s, start, end, min_length, probe_index)\<close>.  The floating
  point expression \<^verbatim>\<open>(int)floorf(logf(min_length) / LogEnvelopeScaleFactor)\<close> is not
  computed by the model: \<open>log_level\<close> stands for it.  A shift by \<open>scale_power\<close> is
  defined in C only below the width of the shifted \<^verbatim>\<open>int\<close>, and the level must be one
  of the \<open>ScaleStepCount\<close> levels of the array.\<close>

definition get_envelope_section ::
  "nat \<Rightarrow> (real \<Rightarrow> int) \<Rightarrow> snapshot \<Rightarrow> EnvelopeSection \<Rightarrow> u64 \<Rightarrow> u64 \<Rightarrow> real \<Rightarrow> nat
     \<Rightarrow> fault + EnvelopeSection" where
  "get_envelope_section ScaleStepCount log_level s sec start en min_length probe_index =
     (if \<not> en \<le> get_sample_count s then Inl AssertFailed
      else if \<not> start \<le> en then Inl AssertFailed
      else if \<not> min_length > 0 then Inl AssertFailed
      else if \<not> envelope_done s then Inr (sec\<lparr>sec_length := 0\<rparr>)
      else
        (let min_level = nat (max (log_level min_length - 1) 0);
             scale_power = (min_level + 1) * EnvelopeScalePower
         in if \<not> scale_power < 31 then Inl UndefinedShift
            else if \<not> min_level < ScaleStepCount then Inl OutOfBounds
            else
              (let start' = drop_bit scale_power start;
                   en' = drop_bit scale_power en;
                   e = envelope_levels s probe_index min_level
               in Inr (sec\<lparr>sec_start := push_bit scale_power start',
                            sec_scale := push_bit scale_power 1,
                            sec_length := (if env_length e = 0 then 0 else en' - start'),
                            sec_samples := (samples e, start')\<rparr>))))"

subsection \<open>dsosnapshot.cpp: the root mean square of a channel\<close>

text \<open>A read of one byte of the raw buffer.\<close>

definition read_byte :: "heap \<Rightarrow> addr option \<Rightarrow> nat \<Rightarrow> fault + u8" where
  "read_byte h p off =
     (case p of
        None \<Rightarrow> Inl NullDeref
      | Some a \<Rightarrow>
          (case block_size h a of
             None \<Rightarrow> Inl OutOfBounds
           | Some sz \<Rightarrow> if off < sz then Inr (mem h a off) else Inl OutOfBounds))"

text \<open>The inner loop of \<^verbatim>\<open>cal_vrms\<close>:
  \<^verbatim>\<open>while (begin_src_ptr < end_src_ptr) { tmp = zero_off - *begin_src_ptr; vrms += tmp * tmp;
  begin_src_ptr += _channel_num; }\<close>.  Pointers into the raw buffer are byte offsets, a
  \<^verbatim>\<open>double\<close> is a real number (no rounding).\<close>

function vrms_chunk ::
  "heap \<Rightarrow> addr option \<Rightarrow> real \<Rightarrow> nat \<Rightarrow> nat \<Rightarrow> nat \<Rightarrow> real \<Rightarrow> fault + real" where
  "vrms_chunk h p zero_off chn end_src begin_src vrms =
     (if begin_src < end_src \<and> 0 < chn then
        (case read_byte h p begin_src of
           Inl f \<Rightarrow> Inl f
         | Inr b \<Rightarrow>
             vrms_chunk h p zero_off chn end_src (begin_src + chn)
               (vrms + (zero_off - real (unat b)) * (zero_off - real (unat b))))
      else Inr vrms)"
  by pat_completeness auto
termination
  by (relation "measure (\<lambda>(h, p, z, chn, e, b, v). e - b)") auto

text \<open>The outer loop of \<^verbatim>\<open>cal_vrms\<close>, from \<^verbatim>\<open>src_ptr\<close> in steps of
  \<^verbatim>\<open>VrmsScaleFactor * _channel_num\<close> while \<^verbatim>\<open>src_ptr < stop_src_ptr\<close>.  As in the source,
  \<^verbatim>\<open>vrms\<close> is not set back to zero before a chunk.\<close>

function vrms_loop ::
  "heap \<Rightarrow> addr option \<Rightarrow> real \<Rightarrow> nat \<Rightarrow> u64 \<Rightarrow> nat \<Rightarrow> nat \<Rightarrow> real \<Rightarrow> real \<Rightarrow> fault + real" where
  "vrms_loop h p zero_off chn cnt stop_src src vrms_pre vrms =
     (if src < stop_src \<and> 0 < chn then
        (case vrms_chunk h p zero_off chn (src + VrmsScaleFactor * chn) src vrms of
           Inl f \<Rightarrow> Inl f
         | Inr v \<Rightarrow>
             vrms_loop h p zero_off chn cnt stop_src (src + VrmsScaleFactor * chn)
               (vrms_pre + v / real (unat cnt)) (vrms_pre + v / real (unat cnt)))
      else Inr vrms)"
  by pat_completeness auto
termination
  by (relation "measure (\<lambda>(h, p, z, chn, cnt, stop, src, pre, v). stop - src)")
     (auto simp: VrmsScaleFactor_def)

text \<open>\<^verbatim>\<open>cal_vrms(zero_off, index)\<close>.  \<^verbatim>\<open>index % _channel_num\<close> divides by zero when there
  is no channel.\<close>

definition cal_vrms :: "heap \<Rightarrow> snapshot \<Rightarrow> real \<Rightarrow> int \<Rightarrow> fault + real" where
  "cal_vrms h s zero_off index =
     (if \<not> index \<ge> 0 then Inl AssertFailed
      else if channel_num s = 0 then Inl DivideByZero
      else
        (case vrms_loop h (data s) zero_off (unat (channel_num s)) (get_sample_count s)
                (unat (get_sample_count s * ucast (channel_num s)))
                (nat index mod unat (channel_num s)) 0 0 of
           Inl f \<Rightarrow> Inl f
         | Inr v \<Rightarrow> Inr (sqrt v)))"

subsection \<open>The reachable states\<close>

text \<open>The states of a snapshot and the heap after construction and any sequence of
  \<^verbatim>\<open>init\<close>, \<^verbatim>\<open>clear\<close>, \<^verbatim>\<open>first_payload\<close>, \<^verbatim>\<open>append_payload\<close>, \<^verbatim>\<open>enable_envelope\<close> and
  \<^verbatim>\<open>capture_ended\<close> that did not stop at a fault.  Between two operations the allocator's
  plan may change.\<close>

inductive reachable :: "nat \<Rightarrow> heap \<Rightarrow> snapshot \<Rightarrow> bool" for ScaleStepCount :: nat where
  r_construct: "reachable ScaleStepCount h DsoSnapshot"
| r_plan: "reachable ScaleStepCount h s \<Longrightarrow> reachable ScaleStepCount (h\<lparr>plan := pl\<rparr>) s"
| r_init: "reachable ScaleStepCount h s \<Longrightarrow> reachable ScaleStepCount h (init ScaleStepCount s)"
| r_clear: "reachable ScaleStepCount h s \<Longrightarrow> clear ScaleStepCount h s = (h', s')
     \<Longrightarrow> reachable ScaleStepCount h' s'"
| r_first_payload: "reachable ScaleStepCount h s
     \<Longrightarrow> first_payload ScaleStepCount h s dso tsc che inst = Inr (h', s')
     \<Longrightarrow> reachable ScaleStepCount h' s'"
| r_append_payload: "reachable ScaleStepCount h s
     \<Longrightarrow> append_payload ScaleStepCount h s dso = Inr (h', s')
     \<Longrightarrow> reachable ScaleStepCount h' s'"
| r_enable_envelope: "reachable ScaleStepCount h s
     \<Longrightarrow> reachable ScaleStepCount h (enable_envelope ScaleStepCount enable s)"
| r_capture_ended: "reachable ScaleStepCount h s
     \<Longrightarrow> reachable ScaleStepCount h (capture_ended s)"

subsection \<open>The pyramid length law\<close>

text \<open>The law of the specification for the levels \<open>lv\<close> of one channel with \<open>n\<close> stored
  samples: level 0 has \<open>n div 256\<close> entries and every higher level a 256th of the level
  below, rounded down.\<close>

definition pyramid_law :: "nat \<Rightarrow> nat \<Rightarrow> (nat \<Rightarrow> Envelope) \<Rightarrow> bool" where
  "pyramid_law ScaleStepCount n lv =
     (unat (env_length (lv 0)) = n div 256 \<and>
      (\<forall>level. 0 < level \<and> level < ScaleStepCount \<longrightarrow>
         unat (env_length (lv level)) = unat (env_length (lv (level - 1))) div 256))"

text \<open>No level that a build over \<open>n\<close> samples leaves at length zero holds an older,
  non-zero length: the state after \<^verbatim>\<open>init\<close>, \<^verbatim>\<open>clear\<close> or a setup that allocates, and
  after any build over at most \<open>n\<close> samples that met the law.\<close>

definition no_stale_levels :: "nat \<Rightarrow> nat \<Rightarrow> nat \<Rightarrow> (nat \<Rightarrow> nat \<Rightarrow> Envelope) \<Rightarrow> bool" where
  "no_stale_levels ScaleStepCount chn n lvs =
     (\<forall>c<chn. \<forall>level<ScaleStepCount.
        n div 256 ^ (level + 1) = 0 \<longrightarrow> env_length (lvs c level) = 0)"

text \<open>What the loop over the higher levels makes of the level that lies \<open>d\<close> levels above
  a level of length \<open>x\<close>, and what the loop over the channels makes of a channel's row when
  \<open>sc div 256\<close> is not zero.\<close>

definition level_after :: "nat \<Rightarrow> nat \<Rightarrow> Envelope \<Rightarrow> Envelope" where
  "level_after x d e =
     (if x div 256 ^ d \<noteq> 0
      then reallocate_envelope (e\<lparr>env_length := of_nat (x div 256 ^ d)\<rparr>)
      else if d = 1 \<or> x div 256 ^ (d - 1) \<noteq> 0 then e\<lparr>env_length := 0\<rparr>
      else e)"

definition channel_after :: "nat \<Rightarrow> u64 \<Rightarrow> (nat \<Rightarrow> Envelope) \<Rightarrow> (nat \<Rightarrow> Envelope)" where
  "channel_after ScaleStepCount sc lv =
     higher_levels (ScaleStepCount - 1) 1
       (lv(0 := reallocate_envelope ((lv 0)\<lparr>env_length := sc div EnvelopeScaleFactor\<rparr>)))"

subsection \<open>Concrete inputs\<close>

text \<open>An empty heap on which every allocation succeeds, and a payload of \<open>n\<close> samples
  that all hold the byte \<open>b\<close>.\<close>

definition heap0 :: heap where
  "heap0 = \<lparr>live = [], mem = (\<lambda>a k. 0), brk = 1, plan = []\<rparr>"

definition chunk :: "nat \<Rightarrow> u8 \<Rightarrow> bool \<Rightarrow> sr_datafeed_dso" where
  "chunk n b tog = \<lparr>dso_data = replicate n b, num_samples = of_nat n, samplerate_tog = tog\<rparr>"

text \<open>The same for \<open>chn\<close> interleaved channels.\<close>

definition payload :: "nat \<Rightarrow> nat \<Rightarrow> u8 \<Rightarrow> bool \<Rightarrow> sr_datafeed_dso" where
  "payload chn n b tog =
     \<lparr>dso_data = replicate (chn * n) b, num_samples = of_nat n, samplerate_tog = tog\<rparr>"

section \<open>Word arithmetic\<close>

lemma unat_lt_u64: "unat (x::u64) < 2 ^ 64"
  using unsigned_less [of x] by simp

lemma unat_ucast_u32 [simp]: "unat (ucast (x::u32) :: u64) = unat x"
proof -
  have "unat x < 2 ^ 32" using unsigned_less [of x] by simp
  then have "unat x < 2 ^ 64" by simp
  then show ?thesis by (simp add: unsigned_ucast_eq take_bit_nat_eq_self)
qed

lemma unat_mult_u64: "unat a * unat b < 2 ^ 64 \<Longrightarrow> unat (a * b) = unat a * unat b"
  for a b :: u64
  using unat_mult_lem [of a b] by simp

lemma unat_add_u64: "unat a + unat b < 2 ^ 64 \<Longrightarrow> unat (a + b) = unat a + unat b"
  for a b :: u64
  using unat_add_lem [of a b] by simp

lemma EnvelopeScaleFactor_256: "EnvelopeScaleFactor = 256"
  by (simp add: EnvelopeScaleFactor_def EnvelopeScalePower_def)

lemma level_zero_iff: "(sc div EnvelopeScaleFactor = 0) = (sc < 256)" for sc :: u64
proof -
  have "(sc div 256 = 0) = (unat (sc div 256) = 0)" by (simp add: unat_eq_zero)
  also have "\<dots> = (unat sc < 256)" by (simp add: unat_div div_eq_0_iff)
  also have "\<dots> = (sc < 256)" by (simp add: word_less_nat_alt)
  finally show ?thesis by (simp add: EnvelopeScaleFactor_256)
qed

section \<open>The ring cursor\<close>

lemma ring_envelope_pass [simp]:
  "ring_sample_count (append_payload_to_envelope_levels K header s) = ring_sample_count s"
  by (simp add: append_payload_to_envelope_levels_def split: prod.split)

lemma ring_append_data:
  "append_data h s src n inst = Inr (h', s') \<Longrightarrow> ring_sample_count s' = ring_sample_count s"
  by (auto simp: append_data_def Let_def split: if_splits sum.splits)

lemma ring_append_payload:
  "append_payload K h s dso = Inr (h', s') \<Longrightarrow> ring_sample_count s' = ring_sample_count s"
  by (auto simp: append_payload_def split: if_splits sum.splits dest: ring_append_data)

lemma ring_setup_alloc:
  "setup_alloc K h s sz = (h', s', ok) \<Longrightarrow> ring_sample_count s' = ring_sample_count s"
  by (auto simp: setup_alloc_def free_data_def free_envelop_def split: prod.splits option.splits)

lemma ring_first_payload:
  assumes "first_payload K h s dso tsc che inst = Inr (h', s')"
  shows "ring_sample_count s' = ring_sample_count s"
proof -
  define chn :: u32 where "chn = of_nat (length (filter snd che))"
  define s0 where "s0 = s\<lparr>total_sample_count := tsc, channel_num := chn, instant := inst,
                       ch_enable := che\<rparr>"
  define sz where "sz = total_sample_count s0 * ucast (channel_num s0) + 8"
  define r where "r = (if (tsc \<noteq> total_sample_count s \<or> chn \<noteq> channel_num s) \<or> sz \<noteq> capacity s0
                       then setup_alloc K h s0 sz else (h, s0, True))"
  obtain h1 s1 isOk where r: "r = (h1, s1, isOk)" by (cases r) auto
  have s1: "ring_sample_count s1 = ring_sample_count s"
    using r unfolding r_def by (auto simp: s0_def split: if_splits dest: ring_setup_alloc)
  from assms show ?thesis
    using r s1 unfolding first_payload_def Let_def chn_def [symmetric] s0_def [symmetric]
      sz_def [symmetric] r_def [symmetric]
    by (auto simp: free_data_def free_envelop_def
             split: if_splits prod.splits sum.splits option.splits dest!: ring_append_payload)
qed

lemma reachable_ring: "reachable K h s \<Longrightarrow> ring_sample_count s = 0"
proof (induction rule: reachable.induct)
  case (r_construct h)
  show ?case by (simp add: DsoSnapshot_def)
next
  case (r_clear h s h' s')
  then show ?case
    by (auto simp: clear_def init_all_def split: prod.splits)
next
  case (r_first_payload h s dso tsc che inst h' s')
  then show ?case by (simp add: ring_first_payload)
next
  case (r_append_payload h s dso h' s')
  then show ?case by (simp add: ring_append_payload)
qed (simp_all add: init_def init_all_def enable_envelope_def capture_ended_def)

text \<open>C9: in every state reachable through construction, setup, appends, envelope
  toggles, \<^verbatim>\<open>init\<close>, \<^verbatim>\<open>clear\<close> and \<^verbatim>\<open>capture_ended\<close> the ring cursor
  \<^verbatim>\<open>_ring_sample_count\<close> is 0; so \<^verbatim>\<open>get_ring_start()\<close> returns 0, and \<^verbatim>\<open>get_ring_end()\<close>
  returns 0 when \<^verbatim>\<open>_sample_count == 0\<close> and \<^verbatim>\<open>_total_sample_count - 1\<close> otherwise.\<close>

theorem ring_cursor_never_advances:
  "reachable K h s \<Longrightarrow>
     ring_sample_count s = 0 \<and> get_ring_start s = 0 \<and>
     get_ring_end s = (if sample_count s = 0 then 0 else total_sample_count s - 1)"
  by (simp add: reachable_ring get_ring_start_def get_ring_end_def ring_start_def ring_end_def)

lemma setup_then_full:
  "(case first_payload 10 heap0 DsoSnapshot (chunk 15 7 False) 10 [(0, True)] True of
      Inr (h, s) \<Rightarrow> sample_count s = 10 \<and> total_sample_count s = 10
    | Inl f \<Rightarrow> False)"
  by code_simp

text \<open>A snapshot set up for 10 samples of one channel in append-growing mode, with a
  first payload of 15 samples: the window is 0 to 9.\<close>

theorem ring_cursor_never_advances_witness:
  "\<exists>h s. first_payload 10 heap0 DsoSnapshot (chunk 15 7 False) 10 [(0, True)] True = Inr (h, s)
     \<and> reachable 10 h s \<and> sample_count s = 10
     \<and> ring_sample_count s = 0 \<and> get_ring_start s = 0 \<and> get_ring_end s = 9"
proof -
  obtain h s where
    fp: "first_payload 10 heap0 DsoSnapshot (chunk 15 7 False) 10 [(0, True)] True = Inr (h, s)"
    and sc: "sample_count s = 10" "total_sample_count s = 10"
    using setup_then_full by (auto split: sum.splits)
  have r: "reachable 10 h s"
    by (rule r_first_payload [OF r_construct fp])
  from ring_cursor_never_advances [OF r] fp r sc show ?thesis by simp
qed

section \<open>Appending in append-growing mode\<close>

lemma instant_append_aux:
  assumes inv: "sample_count s \<le> total_sample_count s"
    and nowrap: "unat (sample_count s) + unat smp < 2 ^ 64"
    and buf: "data s = Some p" "block_size h p = Some sz"
      "unat (total_sample_count s) * unat (channel_num s) \<le> sz" "sz < 2 ^ 64"
    and src: "unat smp * unat (channel_num s) \<le> length src"
  shows "\<exists>h' s'. append_data h s src smp True = Inr (h', s')
      \<and> s' = s\<lparr>sample_count := sample_count s'\<rparr>
      \<and> unat (sample_count s')
          = unat (sample_count s) + min (unat smp) (unat (total_sample_count s) - unat (sample_count s))
      \<and> sample_count s \<le> sample_count s' \<and> sample_count s' \<le> total_sample_count s
      \<and> unat (sample_count s') * unat (channel_num s) \<le> sz
      \<and> live h' = live h
      \<and> (\<forall>k. mem h' p k =
            (if unat (sample_count s) * unat (channel_num s) \<le> k
                \<and> k < unat (sample_count s') * unat (channel_num s)
             then src ! (k - unat (sample_count s) * unat (channel_num s)) else mem h p k))"
proof -
  define sc where "sc = unat (sample_count s)"
  define tot where "tot = unat (total_sample_count s)"
  define ch where "ch = unat (channel_num s)"
  define n where "n = min (unat smp) (tot - sc)"
  define smp' where "smp' = (if sample_count s + smp > total_sample_count s
                     then total_sample_count s - sample_count s else smp)"
  have sc_le: "sc \<le> tot" using inv by (simp add: sc_def tot_def word_le_nat_alt)
  have sum: "unat (sample_count s + smp) = sc + unat smp"
    using nowrap by (simp add: unat_add_u64 sc_def)
  have cond: "(sample_count s + smp > total_sample_count s) = (sc + unat smp > tot)"
    by (simp add: word_less_nat_alt sum tot_def)
  have diff: "unat (total_sample_count s - sample_count s) = tot - sc"
    using inv by (simp add: unat_sub sc_def tot_def)
  have smp'_n: "unat smp' = n"
    unfolding smp'_def n_def using cond diff by (auto simp: min_def)
  have n_le: "sc + n \<le> tot" unfolding n_def using sc_le by simp
  have tot_ch: "tot * ch < 2 ^ 64" using buf(3,4) by (simp add: tot_def ch_def)
  have "sc * ch \<le> tot * ch" using sc_le by (rule mult_le_mono1)
  then have "unat (sample_count s) * unat (ucast (channel_num s) :: u64) < 2 ^ 64"
    using tot_ch unfolding sc_def ch_def unat_ucast_u32 by (rule le_less_trans)
  from unat_mult_u64 [OF this]
  have off: "unat (sample_count s * ucast (channel_num s)) = sc * ch"
    unfolding sc_def ch_def unat_ucast_u32 .
  have "n \<le> tot" using n_le by simp
  then have "n * ch \<le> tot * ch" by (rule mult_le_mono1)
  then have "unat smp' * unat (ucast (channel_num s) :: u64) < 2 ^ 64"
    using tot_ch unfolding smp'_n ch_def unat_ucast_u32 by (rule le_less_trans)
  from unat_mult_u64 [OF this]
  have len: "unat (smp' * ucast (channel_num s)) = n * ch"
    unfolding smp'_n ch_def unat_ucast_u32 .
  have "(sc + n) * ch \<le> tot * ch" using n_le by (rule mult_le_mono1)
  then have fit: "sc * ch + n * ch \<le> sz" using buf(3) by (simp add: tot_def ch_def add_mult_distrib)
  have "n \<le> unat smp" by (simp add: n_def)
  then have "n * ch \<le> unat smp * ch" by (rule mult_le_mono1)
  then have fit_src: "n * ch \<le> length src" using src unfolding ch_def by (rule le_trans)
  have new: "unat (sample_count s + smp') = sc + n"
    using n_le smp'_n unat_lt_u64 [of "total_sample_count s"]
    by (simp add: unat_add_u64 sc_def tot_def)
  have mono: "sample_count s \<le> sample_count s + smp'" "sample_count s + smp' \<le> total_sample_count s"
    using new n_le by (simp_all add: word_le_nat_alt sc_def tot_def)
  show ?thesis
    using fit fit_src new mono
    by (simp add: append_data_def memcpy_def buf smp'_def [symmetric] Let_def off len
          n_def sc_def tot_def ch_def add_mult_distrib)
qed

text \<open>C7: in append-growing mode (\<^verbatim>\<open>instant = true\<close>), on a snapshot with
  \<^verbatim>\<open>_sample_count <= _total_sample_count\<close> whose raw buffer holds the
  \<^verbatim>\<open>_total_sample_count * _channel_num\<close> bytes, and for a chunk that holds its
  \<^verbatim>\<open>samples * _channel_num\<close> bytes (the sum \<^verbatim>\<open>_sample_count + samples\<close> not overflowing 64
  bits), \<^verbatim>\<open>append_data\<close> returns without a fault, writes the chunk from the byte offset of
  the current \<^verbatim>\<open>_sample_count\<close> on and nothing else, cuts a chunk that would overflow to
  the remaining room \<^verbatim>\<open>_total_sample_count - _sample_count\<close>, and \<^verbatim>\<open>_sample_count\<close> grows
  monotonically and stays at most \<^verbatim>\<open>_total_sample_count\<close>; every written byte lies inside
  the buffer.\<close>

theorem append_data_instant:
  assumes "sample_count s \<le> total_sample_count s"
    and "unat (sample_count s) + unat smp < 2 ^ 64"
    and "data s = Some p" and "block_size h p = Some sz"
    and "unat (total_sample_count s) * unat (channel_num s) \<le> sz" and "sz < 2 ^ 64"
    and "unat smp * unat (channel_num s) \<le> length src"
  shows "\<exists>h' s'. append_data h s src smp True = Inr (h', s')
      \<and> s' = s\<lparr>sample_count := sample_count s'\<rparr>
      \<and> unat (sample_count s')
          = unat (sample_count s) + min (unat smp) (unat (total_sample_count s) - unat (sample_count s))
      \<and> sample_count s \<le> sample_count s' \<and> sample_count s' \<le> total_sample_count s
      \<and> unat (sample_count s') * unat (channel_num s) \<le> sz
      \<and> live h' = live h
      \<and> (\<forall>k. mem h' p k =
            (if unat (sample_count s) * unat (channel_num s) \<le> k
                \<and> k < unat (sample_count s') * unat (channel_num s)
             then src ! (k - unat (sample_count s) * unat (channel_num s)) else mem h p k))"
  using assms by (rule instant_append_aux)

lemma setup_empty:
  "(case first_payload 10 heap0 DsoSnapshot (chunk 0 0 False) 10 [(0, True)] True of
      Inr (h, s) \<Rightarrow> sample_count s = 0 \<and> total_sample_count s = 10 \<and> channel_num s = 1
         \<and> data s = Some 1 \<and> block_size h 1 = Some 18
    | Inl f \<Rightarrow> False)"
  by code_simp

text \<open>With a capacity of 10 samples, one channel and no sample stored, a chunk of 15
  samples leaves \<^verbatim>\<open>size() == 10\<close>; only the first 10 bytes of the 18 byte buffer are
  written.\<close>

theorem append_data_instant_witness:
  "\<exists>h s h' s'. first_payload 10 heap0 DsoSnapshot (chunk 0 0 False) 10 [(0, True)] True = Inr (h, s)
     \<and> sample_count s = 0 \<and> total_sample_count s = 10 \<and> channel_num s = 1
     \<and> block_size h 1 = Some 18
     \<and> append_data h s (replicate 15 7) 15 True = Inr (h', s')
     \<and> get_sample_count s' = 10 \<and> live h' = live h
     \<and> (\<forall>k. mem h' 1 k = (if k < 10 then 7 else mem h 1 k))"
proof -
  obtain h s where
    fp: "first_payload 10 heap0 DsoSnapshot (chunk 0 0 False) 10 [(0, True)] True = Inr (h, s)"
    and s: "sample_count s = 0" "total_sample_count s = 10" "channel_num s = 1"
      "data s = Some 1" "block_size h 1 = Some 18"
    using setup_empty by (auto split: sum.splits)
  have "\<exists>h' s'. append_data h s (replicate 15 7) 15 True = Inr (h', s')
      \<and> s' = s\<lparr>sample_count := sample_count s'\<rparr>
      \<and> unat (sample_count s')
          = unat (sample_count s) + min (unat (15::u64)) (unat (total_sample_count s) - unat (sample_count s))
      \<and> sample_count s \<le> sample_count s' \<and> sample_count s' \<le> total_sample_count s
      \<and> unat (sample_count s') * unat (channel_num s) \<le> 18
      \<and> live h' = live h
      \<and> (\<forall>k. mem h' 1 k =
            (if unat (sample_count s) * unat (channel_num s) \<le> k
                \<and> k < unat (sample_count s') * unat (channel_num s)
             then replicate 15 7 ! (k - unat (sample_count s) * unat (channel_num s)) else mem h 1 k))"
    by (rule append_data_instant) (use s in simp_all)
  then obtain h' s' where
    ad: "append_data h s (replicate 15 7) 15 True = Inr (h', s')"
    and n: "unat (sample_count s') = 10" and l: "live h' = live h"
    and m: "\<forall>k. mem h' 1 k = (if k < unat (sample_count s') then replicate 15 7 ! k else mem h 1 k)"
    using s by auto
  from n have sc': "sample_count s' = 10" by (simp add: word_unat_eq_iff)
  from m n have "\<forall>k. mem h' 1 k = (if k < 10 then 7 else mem h 1 k)" by simp
  with fp s ad sc' l show ?thesis by (auto simp: get_sample_count_def)
qed

section \<open>Completion of the envelope build\<close>

lemma envelope_channels_finished:
  "snd (envelope_channels K sc n i lvs) = (n = 0 \<or> \<not> sc < 256)"
  by (induction n arbitrary: i lvs) (auto simp: Let_def level_zero_iff)

lemma envelope_done_build:
  "envelope_done (append_payload_to_envelope_levels K header s) =
     (envelope_done s \<or> channel_num s = 0 \<or> 256 \<le> sample_count s)"
  using envelope_channels_finished [of K "sample_count s" "unat (channel_num s)" 0 "envelope_levels s"]
  by (auto simp: append_payload_to_envelope_levels_def unat_eq_zero split: prod.splits)

text \<open>C5, as amended: after a run of the envelope build pass \<^verbatim>\<open>_envelope_done\<close> is true
  exactly when it was true before, or the snapshot has no channel, or at least 256 samples
  are stored (the level-0 length is not zero); then it is true for every channel count and
  whatever the higher levels hold.  With fewer than 256 samples and a channel the pass
  returns at \<^verbatim>\<open>if (e0.length == 0) return;\<close> and leaves the flag as it was.\<close>

theorem envelope_done_after_build:
  "envelope_done (append_payload_to_envelope_levels K header s) =
     (envelope_done s \<or> channel_num s = 0 \<or> 256 \<le> sample_count s)"
  by (rule envelope_done_build)

text \<open>A new snapshot (one channel, no sample) on which \<^verbatim>\<open>enable_envelope(true)\<close> runs
  the build pass, and the build pass over 100 stored samples: \<^verbatim>\<open>_envelope_done\<close> stays
  false.\<close>

theorem envelope_not_done_below_256:
  "\<not> envelope_done (enable_envelope 10 True DsoSnapshot)
   \<and> \<not> envelope_done (append_payload_to_envelope_levels 10 True
          (DsoSnapshot\<lparr>sample_count := 100\<rparr>))"
  by (simp add: enable_envelope_def envelope_done_build DsoSnapshot_def)

section \<open>Allocation failure during setup\<close>

lemma raw_malloc_fails_4:
  "(case first_payload 10 (heap0\<lparr>plan := [False]\<rparr>) DsoSnapshot (chunk 4 7 False) 10
           [(0, True)] True of
      Inr (h, s) \<Rightarrow> False
    | Inl f \<Rightarrow> f = NullDeref)"
  by code_simp

lemma raw_malloc_fails_0:
  "(case first_payload 10 (heap0\<lparr>plan := [False]\<rparr>) DsoSnapshot (chunk 0 7 False) 10
           [(0, True)] True of
      Inr (h, s) \<Rightarrow> \<not> memory_failed s \<and> data s = None \<and> capacity s = 18 \<and> \<not> last_ended s
    | Inl f \<Rightarrow> False)"
  by code_simp

text \<open>When the allocation of an envelope level fails (here the third level of the
  channel), the pass is rolled back: nothing stays allocated, there is no raw buffer,
  \<^verbatim>\<open>_memory_failed\<close> is set and \<^verbatim>\<open>size()\<close> is 0.\<close>

lemma envelope_malloc_fails:
  "(case first_payload 10 (heap0\<lparr>plan := [True, True, True, False]\<rparr>) DsoSnapshot
           (chunk 4 7 False) 10 [(0, True)] True of
      Inr (h, s) \<Rightarrow> memory_failed s \<and> data s = None \<and> get_sample_count s = 0 \<and> live h = []
        \<and> envelope_pointers 10 s = []
    | Inl f \<Rightarrow> False)"
  by code_simp

text \<open>C1 at the failing input: the allocation of the raw buffer fails.  \<^verbatim>\<open>first_payload\<close>
  goes on as if it had succeeded: with a payload of 4 samples \<^verbatim>\<open>append_data\<close> copies
  through the null pointer; with an empty payload it returns with \<^verbatim>\<open>_memory_failed\<close>
  false and \<^verbatim>\<open>_capacity\<close> 18 although there is no buffer.\<close>

theorem raw_buffer_failure_not_reported:
  "first_payload 10 (heap0\<lparr>plan := [False]\<rparr>) DsoSnapshot (chunk 4 7 False) 10 [(0, True)] True
     = Inl NullDeref
   \<and> (\<exists>h s. first_payload 10 (heap0\<lparr>plan := [False]\<rparr>) DsoSnapshot (chunk 0 7 False) 10
                [(0, True)] True = Inr (h, s)
          \<and> \<not> memory_failed s \<and> data s = None \<and> capacity s = 18)"
  using raw_malloc_fails_4 raw_malloc_fails_0 by (auto split: sum.splits)

text \<open>The copy through the null pointer, read off the theorem.\<close>

theorem raw_buffer_failure_not_reported_witness:
  "\<exists>f. first_payload 10 (heap0\<lparr>plan := [False]\<rparr>) DsoSnapshot (chunk 4 7 False) 10
         [(0, True)] True = Inl f"
  using raw_buffer_failure_not_reported by blast

section \<open>The bound on the sample count\<close>

text \<open>In append-growing mode \<^verbatim>\<open>append_data\<close> keeps the bound, for every chunk length.\<close>

lemma instant_append_keeps_bound:
  assumes "sample_count s \<le> total_sample_count s"
    and "append_data h s src smp True = Inr (h', s')"
  shows "sample_count s' \<le> total_sample_count s'"
proof (cases "sample_count s + smp > total_sample_count s")
  case True
  with assms(2) have "sample_count s' = total_sample_count s" "total_sample_count s' = total_sample_count s"
    by (auto simp: append_data_def Let_def split: sum.splits)
  then show ?thesis by simp
next
  case False
  with assms(2) have "sample_count s' = sample_count s + smp" "total_sample_count s' = total_sample_count s"
    by (auto simp: append_data_def Let_def split: sum.splits)
  with False show ?thesis by simp
qed

lemma setup_replace_15:
  "(case first_payload 10 heap0 DsoSnapshot (chunk 15 7 False) 10 [(0, True)] False of
      Inr (h, s) \<Rightarrow> sample_count s = 15 \<and> total_sample_count s = 10
    | Inl f \<Rightarrow> False)"
  by code_simp

text \<open>C2 at the failing input: in replace-on-arrival mode a payload of 15 samples for a
  capacity of 10 leaves \<^verbatim>\<open>_sample_count\<close> at 15.\<close>

theorem replace_mode_exceeds_total:
  "\<exists>h s. first_payload 10 heap0 DsoSnapshot (chunk 15 7 False) 10 [(0, True)] False = Inr (h, s)
     \<and> reachable 10 h s \<and> sample_count s = 15 \<and> total_sample_count s = 10
     \<and> \<not> sample_count s \<le> total_sample_count s"
proof -
  obtain h s where
    fp: "first_payload 10 heap0 DsoSnapshot (chunk 15 7 False) 10 [(0, True)] False = Inr (h, s)"
    and sc: "sample_count s = 15" "total_sample_count s = 10"
    using setup_replace_15 by (auto split: sum.splits)
  have "reachable 10 h s" by (rule r_first_payload [OF r_construct fp])
  with fp sc show ?thesis by simp
qed

text \<open>The sample count of that run as a number.\<close>

theorem replace_mode_exceeds_total_witness:
  "\<exists>h s. first_payload 10 heap0 DsoSnapshot (chunk 15 7 False) 10 [(0, True)] False = Inr (h, s)
     \<and> unat (sample_count s) = 15 \<and> unat (total_sample_count s) = 10"
proof -
  from replace_mode_exceeds_total obtain h s where
    "first_payload 10 heap0 DsoSnapshot (chunk 15 7 False) 10 [(0, True)] False = Inr (h, s)"
    "sample_count s = 15" "total_sample_count s = 10"
    by blast
  then show ?thesis by auto
qed

section \<open>Block decomposition\<close>

lemma LeafMask_mask: "LeafMask P = mask P"
  by (simp add: LeafMask_def push_bit_minus_one_eq_not_mask)

lemma unat_LeafBlockSamples:
  assumes "P < 64" shows "unat (LeafBlockSamples P) = 2 ^ P"
proof -
  have lt: "(2::nat) ^ P < 2 ^ LENGTH(64)"
    using assms by (intro power_strict_increasing) simp_all
  have "unat (of_nat (2 ^ P) :: u64) = 2 ^ P mod 2 ^ LENGTH(64)" by (rule unat_of_nat)
  also have "\<dots> = 2 ^ P" using lt by (rule mod_less)
  finally show ?thesis by (simp add: LeafBlockSamples_def)
qed

lemma sint_ucast_small:
  fixes w :: u64
  assumes "unat w < 2 ^ 31"
  shows "sint (ucast w :: 32 word) = int (unat w)"
proof -
  have "int (unat w) < int (2 ^ 31)" using assms by (simp only: of_nat_less_iff)
  then have u: "uint w < 2 ^ 31" by simp
  have "uint (ucast w :: 32 word) = take_bit 32 (uint w)"
    by (simp add: unsigned_ucast_eq)
  also have "\<dots> = uint w" using u by (simp add: take_bit_int_eq_self)
  finally have "uint (ucast w :: 32 word) = uint w" .
  then have "sint (ucast w :: 32 word) = signed_take_bit 31 (uint w)"
    by (simp add: sint_uint)
  also have "\<dots> = uint w"
  proof -
    have "- (2 ^ 31) \<le> (0::int)" by simp
    also have "0 \<le> uint w" by simp
    finally have "- (2 ^ 31) \<le> uint w" .
    then show ?thesis using u by (intro signed_take_bit_int_eq_self)
  qed
  finally show ?thesis by simp
qed

lemma div_mod_decomp:
  fixes k r b :: nat assumes "r < b"
  shows "(k * b + r) div b = k" "(k * b + r) mod b = r" "(b dvd k * b + r) = (r = 0)"
proof -
  show "(k * b + r) div b = k" using assms by simp
  show "(k * b + r) mod b = r" using assms by simp
  then show "(b dvd k * b + r) = (r = 0)" by (metis dvd_eq_mod_eq_0)
qed


lemma block_num_aux:
  assumes P: "P < 64"
    and sz: "unat (stored_bytes s) = k * 2 ^ P + r" and r: "r < 2 ^ P"
    and fits: "k + 1 < 2 ^ 31"
  shows "get_block_num P s = int (if r = 0 then k else k + 1)"
proof -
  define w where "w = stored_bytes s"
  have "unat (drop_bit P w) = unat w div 2 ^ P"
    unfolding unat_drop_bit_eq by (rule drop_bit_eq_div)
  then have d: "unat (drop_bit P w) = k"
    using div_mod_decomp(1) [OF r, of k] sz by (simp add: w_def)
  have "(w AND mask P = 0) = (2 ^ P dvd unat w)" by (simp only: and_mask_dvd_nat)
  then have m: "(w AND LeafMask P \<noteq> 0) = (r \<noteq> 0)"
    using div_mod_decomp(3) [OF r, of k] sz by (simp add: w_def LeafMask_mask)
  define b :: u64 where "b = (if w AND LeafMask P \<noteq> 0 then 1 else 0)"
  have b: "unat b = (if r = 0 then 0 else 1)" using m by (simp add: b_def)
  have "k + 1 < (2::nat) ^ 64" using fits by simp
  then have "unat (drop_bit P w) + unat b < 2 ^ 64" unfolding d b by (simp split: if_splits)
  from unat_add_u64 [OF this]
  have s: "unat (drop_bit P w + b) = (if r = 0 then k else k + 1)"
    unfolding d b by (simp split: if_splits)
  then have "unat (drop_bit P w + b) < 2 ^ 31" using fits by (simp split: if_splits)
  from sint_ucast_small [OF this] s show ?thesis
    by (simp add: get_block_num_def Let_def w_def [symmetric] b_def [symmetric])
qed

lemma block_mod_aux:
  assumes P: "P < 64"
    and sz: "unat (stored_bytes s) = k * 2 ^ P + r" and r: "r < 2 ^ P"
  shows "unat (stored_bytes s mod LeafBlockSamples P) = r"
  using div_mod_decomp(2) [OF r, of k] sz by (simp only: unat_mod unat_LeafBlockSamples [OF P])


lemma block_size_aux:
  assumes P: "P < 64"
    and sz: "unat (stored_bytes s) = k * 2 ^ P + r" and r: "r < 2 ^ P"
    and fits: "k + 1 < 2 ^ 31"
  shows "get_block_size P s i =
     (if \<not> i < int (if r = 0 then k else k + 1) then Inl AssertFailed
      else if i < int (if r = 0 then k else k + 1) - 1 then Inr (LeafBlockSamples P)
      else if r = 0 then Inr (LeafBlockSamples P) else Inr (of_nat r))"
proof -
  have m: "unat (stored_bytes s mod LeafBlockSamples P) = r"
    using P sz r by (rule block_mod_aux)
  then have z: "(stored_bytes s mod LeafBlockSamples P = 0) = (r = 0)"
    by (simp add: unat_eq_zero [symmetric])
  have "of_nat (unat (stored_bytes s mod LeafBlockSamples P)) = (of_nat r :: u64)"
    by (simp only: m)
  then have w: "stored_bytes s mod LeafBlockSamples P = of_nat r" by simp
  from z have z': "((of_nat r :: u64) = 0) = (r = 0)" unfolding w .
  show ?thesis
    unfolding get_block_size_def block_num_aux [OF P sz r fits] Let_def w z' by simp
qed

text \<open>C8: for a stored byte size of \<open>k * 2 ^ LeafBlockPower + r\<close> with
  \<open>r < 2 ^ LeafBlockPower\<close>, the block size being \<open>2 ^ LeafBlockPower\<close> (and the number of
  blocks fitting the \<^verbatim>\<open>int\<close> that \<^verbatim>\<open>get_block_num\<close> returns): when \<open>0 < r\<close>,
  \<^verbatim>\<open>get_block_num()\<close> is \<open>k + 1\<close>, \<^verbatim>\<open>get_block_size(k)\<close> is \<open>r\<close> and \<^verbatim>\<open>get_block_size(i)\<close>
  is the block size for every \<open>i < k\<close>; when the size divides evenly (\<open>r = 0\<close>, \<open>0 < k\<close>)
  there are \<open>k\<close> blocks and the last one, like the others, is a full block.\<close>

theorem block_decomposition:
  assumes "P < 64"
    and "unat (stored_bytes s) = k * 2 ^ P + r" and "r < 2 ^ P"
    and "k + 1 < 2 ^ 31"
  shows "unat (LeafBlockSamples P) = 2 ^ P
     \<and> (0 < r \<longrightarrow> get_block_num P s = int k + 1
           \<and> get_block_size P s (int k) = Inr (of_nat r)
           \<and> (\<forall>i<k. get_block_size P s (int i) = Inr (LeafBlockSamples P)))
     \<and> (r = 0 \<and> 0 < k \<longrightarrow> get_block_num P s = int k
           \<and> get_block_size P s (int k - 1) = Inr (LeafBlockSamples P)
           \<and> (\<forall>i<k. get_block_size P s (int i) = Inr (LeafBlockSamples P)))"
  using unat_LeafBlockSamples [OF assms(1)] block_num_aux [OF assms]
  by (auto simp: block_size_aux [OF assms])

text \<open>With \<open>LeafBlockPower = 21\<close>: 2097157 stored bytes are one full block and a block of
  5 bytes; 4194304 stored bytes are two full blocks.\<close>

theorem block_decomposition_witness:
  "get_block_num 21 (DsoSnapshot\<lparr>sample_count := 2097157\<rparr>) = 2
   \<and> get_block_size 21 (DsoSnapshot\<lparr>sample_count := 2097157\<rparr>) 1 = Inr 5
   \<and> get_block_size 21 (DsoSnapshot\<lparr>sample_count := 2097157\<rparr>) 0 = Inr (LeafBlockSamples 21)
   \<and> unat (LeafBlockSamples 21) = 2097152
   \<and> get_block_num 21 (DsoSnapshot\<lparr>sample_count := 4194304\<rparr>) = 2
   \<and> get_block_size 21 (DsoSnapshot\<lparr>sample_count := 4194304\<rparr>) 1 = Inr (LeafBlockSamples 21)"
proof -
  have a: "unat (stored_bytes (DsoSnapshot\<lparr>sample_count := 2097157\<rparr>)) = 1 * 2 ^ 21 + 5"
    by (simp add: stored_bytes_def get_unit_bytes_def get_channel_num_def DsoSnapshot_def)
  have b: "unat (stored_bytes (DsoSnapshot\<lparr>sample_count := 4194304\<rparr>)) = 2 * 2 ^ 21 + 0"
    by (simp add: stored_bytes_def get_unit_bytes_def get_channel_num_def DsoSnapshot_def)
  from block_decomposition [OF _ a] block_decomposition [OF _ b]
  show ?thesis by simp
qed

section \<open>The envelope build pass in closed form\<close>

lemma reallocate_envelope_fields [simp]:
  "env_length (reallocate_envelope e) = env_length e"
  "samples (reallocate_envelope e) = samples e"
  by (simp_all add: reallocate_envelope_def)

lemma reallocate_envelope_data_length:
  "data_length (reallocate_envelope e) = max (data_length e) (new_data_length e)"
  by (auto simp: reallocate_envelope_def max_def)

lemma new_data_length_cong [simp]:
  "new_data_length (e\<lparr>data_length := x\<rparr>) = new_data_length e"
  by (simp add: new_data_length_def)

lemma unat_div_256: "unat (x div EnvelopeScaleFactor) = unat x div 256" for x :: u64
  by (simp add: EnvelopeScaleFactor_256 unat_div)

lemma div_256_of_nat: "x div EnvelopeScaleFactor = of_nat (unat x div 256)" for x :: u64
proof -
  have "of_nat (unat (x div EnvelopeScaleFactor)) = (of_nat (unat x div 256) :: u64)"
    by (simp only: unat_div_256)
  then show ?thesis by simp
qed

lemma higher_levels_closed:
  "1 \<le> lvl \<Longrightarrow>
   higher_levels m lvl r L =
     (if lvl \<le> L \<and> L < lvl + m
      then level_after (unat (env_length (r (lvl - 1)))) (L + 1 - lvl) (r L)
      else r L)"
proof (induction m arbitrary: lvl r)
  case 0
  then show ?case by auto
next
  case (Suc m)
  define x where "x = unat (env_length (r (lvl - 1)))"
  define e where "e = (r lvl)\<lparr>env_length := env_length (r (lvl - 1)) div EnvelopeScaleFactor\<rparr>"
  have xe: "unat (env_length e) = x div 256" by (simp add: e_def x_def unat_div_256)
  have e_nat: "e = (r lvl)\<lparr>env_length := of_nat (x div 256)\<rparr>"
    by (simp add: e_def x_def div_256_of_nat)
  have goal: "higher_levels (Suc m) lvl r L =
     (if lvl \<le> L \<and> L < lvl + Suc m then level_after x (L + 1 - lvl) (r L) else r L)"
  proof (cases "env_length e = 0")
    case True
    then have z: "x div 256 = 0" using xe by simp
    then have small: "x < 256" by (simp add: div_eq_0_iff)
    have pow: "x div 256 ^ d = 0" if "1 \<le> d" for d
    proof -
      have "(256::nat) ^ 1 \<le> 256 ^ d" using that by (intro power_increasing) simp_all
      then have "x < 256 ^ d" using small by simp
      then show ?thesis by simp
    qed
    have hl: "higher_levels (Suc m) lvl r = r(lvl := e)"
      using True by (simp add: Let_def e_def)
    have e0: "e = (r lvl)\<lparr>env_length := 0\<rparr>" using z e_nat by simp
    show ?thesis
    proof (cases "L = lvl")
      case True
      then show ?thesis unfolding hl by (simp add: e0 level_after_def z)
    next
      case False
      show ?thesis
      proof (cases "lvl < L")
        case True
        then have "1 \<le> L + 1 - lvl" "1 \<le> L - lvl" by simp_all
        then have p: "x div 256 ^ (L + 1 - lvl) = 0" "x div 256 ^ (L - lvl) = 0"
          by (simp_all only: pow)
        have d: "L + 1 - lvl \<noteq> 1" "L + 1 - lvl - 1 = L - lvl" using True by simp_all
        have "level_after x (L + 1 - lvl) (r L) = r L"
          using d p by (simp add: level_after_def)
        then show ?thesis unfolding hl using False by simp
      next
        case False
        with \<open>L \<noteq> lvl\<close> show ?thesis unfolding hl by simp
      qed
    qed
  next
    case False
    then have "unat (env_length e) \<noteq> 0" by (simp add: unat_eq_zero)
    then have nz: "x div 256 \<noteq> 0" unfolding xe .
    define r' where "r' = r(lvl := reallocate_envelope e)"
    have step: "higher_levels (Suc m) lvl r = higher_levels m (Suc lvl) r'"
      using False by (simp add: Let_def e_def r'_def)
    have x': "unat (env_length (r' (Suc lvl - 1))) = x div 256"
      by (simp add: r'_def xe)
    have shift: "x div 256 div 256 ^ d = x div 256 ^ Suc d" for d
      by (simp add: div_mult2_eq)
    have IH: "higher_levels m (Suc lvl) r' L =
      (if Suc lvl \<le> L \<and> L < Suc lvl + m
       then level_after (x div 256) (L + 1 - Suc lvl) (r' L) else r' L)"
      using Suc.IH [of "Suc lvl" r'] unfolding x' by simp
    show ?thesis
    proof (cases "L = lvl")
      case True
      then show ?thesis
        unfolding step IH using nz by (simp add: r'_def level_after_def e_nat)
    next
      case False
      show ?thesis
      proof (cases "lvl < L \<and> L < lvl + Suc m")
        case True
        then obtain d where d: "L = lvl + Suc d" by (metis less_imp_Suc_add add_Suc_right)
        have nz1: "x div 256 ^ Suc 0 \<noteq> 0" using nz by simp
        have shift0: "x div 256 div 256 = x div 256 ^ Suc (Suc 0)"
          by (simp add: div_mult2_eq)
        have la: "level_after (x div 256) (Suc d) e' = level_after x (Suc (Suc d)) e'" for e'
          using nz1 by (cases d) (auto simp add: level_after_def shift shift0 simp del: power_Suc)
        show ?thesis
          unfolding step IH using True by (simp add: d r'_def la)
      next
        case False
        with \<open>L \<noteq> lvl\<close> show ?thesis
          unfolding step IH by (auto simp: r'_def)
      qed
    qed
  qed
  show ?case using goal unfolding x_def .
qed


lemma envelope_channels_closed:
  "envelope_channels K sc n i lvs =
     (if n = 0 then (lvs, True)
      else if sc div EnvelopeScaleFactor = 0
      then (lvs(i := (lvs i)(0 := (lvs i 0)\<lparr>env_length := 0\<rparr>)), False)
      else (\<lambda>c. if i \<le> c \<and> c < i + n then channel_after K sc (lvs c) else lvs c, True))"
proof (induction n arbitrary: i lvs)
  case 0
  then show ?case by simp
next
  case (Suc n)
  show ?case
  proof (cases "sc div EnvelopeScaleFactor = 0")
    case True
    then show ?thesis by (simp add: Let_def)
  next
    case False
    have step: "envelope_channels K sc (Suc n) i lvs =
        envelope_channels K sc n (Suc i) (lvs(i := channel_after K sc (lvs i)))"
      using False by (simp add: Let_def channel_after_def)
    show ?thesis
      unfolding step Suc.IH using False by (auto simp: fun_eq_iff)
  qed
qed

lemma channel_after_level:
  assumes "L < K"
  shows "channel_after K sc lv L =
     (if L = 0 then reallocate_envelope ((lv 0)\<lparr>env_length := sc div EnvelopeScaleFactor\<rparr>)
      else level_after (unat sc div 256) L (lv L))"
proof -
  have "(1::nat) \<le> 1" by simp
  from higher_levels_closed [OF this, of "K - 1"
      "lv(0 := reallocate_envelope ((lv 0)\<lparr>env_length := sc div EnvelopeScaleFactor\<rparr>))" L]
  show ?thesis using assms by (auto simp: channel_after_def unat_div_256)
qed

text \<open>The levels after a run of the build pass over \<open>n\<close> stored samples.\<close>

lemma build_level_closed:
  assumes c: "c < unat (channel_num s)" and L: "L < K"
  defines "n \<equiv> unat (sample_count s)"
  shows "envelope_levels (append_payload_to_envelope_levels K header s) c L =
     (if n div 256 ^ (L + 1) \<noteq> 0
      then reallocate_envelope
             ((envelope_levels s c L)\<lparr>env_length := of_nat (n div 256 ^ (L + 1))\<rparr>)
      else if (L = 0 \<and> c = 0) \<or> (0 < L \<and> n div 256 ^ L \<noteq> 0)
      then (envelope_levels s c L)\<lparr>env_length := 0\<rparr>
      else envelope_levels s c L)"
proof -
  have C: "unat (channel_num s) \<noteq> 0" using c by simp
  have lv: "envelope_levels (append_payload_to_envelope_levels K header s) =
     fst (envelope_channels K (sample_count s) (unat (channel_num s)) 0 (envelope_levels s))"
    by (simp add: append_payload_to_envelope_levels_def split: prod.splits)
  show ?thesis
  proof (cases "sample_count s div EnvelopeScaleFactor = 0")
    case True
    then have "unat (sample_count s div EnvelopeScaleFactor) = 0" by simp
    then have z: "n div 256 = 0" by (simp add: unat_div_256 n_def)
    then have small: "n < 256" by (simp add: div_eq_0_iff)
    have pow: "n div 256 ^ d = 0" if "1 \<le> d" for d
    proof -
      have "(256::nat) ^ 1 \<le> 256 ^ d" using that by (intro power_increasing) simp_all
      then have "n < 256 ^ d" using small by simp
      then show ?thesis by simp
    qed
    have p1: "n div 256 ^ (L + 1) = 0" by (rule pow) simp
    have p2: "0 < L \<Longrightarrow> n div 256 ^ L = 0" by (rule pow) simp
    show ?thesis
      unfolding lv envelope_channels_closed using True C p1 p2 by auto
  next
    case False
    then have "unat (sample_count s div EnvelopeScaleFactor) \<noteq> 0" by (simp add: unat_eq_zero)
    then have nz: "n div 256 \<noteq> 0" by (simp add: unat_div_256 n_def)
    have shift: "n div 256 div 256 ^ d = n div 256 ^ (d + 1)" for d
      by (simp add: div_mult2_eq)
    have l0: "sample_count s div EnvelopeScaleFactor = of_nat (n div 256 ^ (0 + 1))"
      by (simp add: div_256_of_nat n_def)
    have row: "envelope_levels (append_payload_to_envelope_levels K header s) c
        = channel_after K (sample_count s) (envelope_levels s c)"
      unfolding lv envelope_channels_closed using False C c by simp
    show ?thesis
    proof (cases L)
      case 0
      then show ?thesis
        unfolding row channel_after_level [OF L] using nz l0 by simp
    next
      case (Suc d)
      have a: "level_after (n div 256) (Suc d) e =
        (if n div 256 ^ (Suc d + 1) \<noteq> 0
         then reallocate_envelope (e\<lparr>env_length := of_nat (n div 256 ^ (Suc d + 1))\<rparr>)
         else if n div 256 ^ Suc d \<noteq> 0 then e\<lparr>env_length := 0\<rparr> else e)" for e
        using nz shift [of 1] by (cases d) (auto simp add: level_after_def shift simp del: power_Suc)
      have "channel_after K (sample_count s) (envelope_levels s c) L
          = level_after (n div 256) L (envelope_levels s c L)"
        using channel_after_level [OF L] Suc by (simp add: n_def)
      then show ?thesis
        unfolding row Suc a by (simp del: power_Suc)
    qed
  qed
qed

section \<open>Setup when every allocation succeeds\<close>

text \<open>In replace-on-arrival mode a payload that fits the buffer sets \<^verbatim>\<open>_sample_count\<close> to
  its length, whatever the count was, and then runs the build pass when envelope
  generation is enabled.\<close>

lemma append_payload_replace:
  assumes "\<not> instant s" and "channel_num s \<noteq> 0" and "num_samples dso \<noteq> 0"
    and "data s = Some p" and "block_size h p = Some sz"
    and "unat (num_samples dso * ucast (channel_num s)) \<le> sz"
    and "unat (num_samples dso * ucast (channel_num s)) \<le> length (dso_data dso)"
  shows "\<exists>h'. append_payload K h s dso =
     Inr (h', (if envelope_en s
               then append_payload_to_envelope_levels K (samplerate_tog dso)
                      (s\<lparr>sample_count := num_samples dso\<rparr>)
               else s\<lparr>sample_count := num_samples dso\<rparr>)\<lparr>have_data := True\<rparr>)
     \<and> live h' = live h"
  using assms
  by (simp add: append_payload_def append_data_def memcpy_def word_greater_zero_iff)

lemma malloc_plan_empty:
  "plan h = [] \<Longrightarrow>
   malloc n h = (Some (brk h), h\<lparr>live := (brk h, n) # live h, brk := Suc (brk h)\<rparr>)"
  by (simp add: malloc_def)

lemma alloc_levels_succeeds:
  "plan h = [] \<Longrightarrow>
   \<exists>h' lv'. alloc_levels n l c h lv = (h', lv', True) \<and> plan h' = [] \<and> brk h \<le> brk h'
     \<and> (\<forall>a. a < brk h \<longrightarrow> block_size h' a = block_size h a)
     \<and> (\<forall>L. env_length (lv' L) = env_length (lv L) \<and> data_length (lv' L) = data_length (lv L))"
proof (induction n arbitrary: l c h lv)
  case 0
  then show ?case by simp
next
  case (Suc n)
  define cnt where "cnt = ((c + EnvelopeDataUnit - 1) div EnvelopeDataUnit) * EnvelopeDataUnit"
  define h1 where "h1 = h\<lparr>live := (brk h, unat (cnt * sizeof_EnvelopeSample)) # live h,
                          brk := Suc (brk h)\<rparr>"
  define lv1 where "lv1 = lv(l := (lv l)\<lparr>samples := Some (brk h)\<rparr>)"
  have step: "alloc_levels (Suc n) l c h lv
      = alloc_levels n (Suc l) (cnt div EnvelopeScaleFactor) h1 lv1"
    using Suc.prems by (simp add: Let_def malloc_plan_empty cnt_def h1_def lv1_def)
  have p1: "plan h1 = []" using Suc.prems by (simp add: h1_def)
  from Suc.IH [OF p1, of "Suc l" "cnt div EnvelopeScaleFactor" lv1]
  obtain h' lv' where r: "alloc_levels n (Suc l) (cnt div EnvelopeScaleFactor) h1 lv1 = (h', lv', True)"
    and p: "plan h' = []" and b: "brk h1 \<le> brk h'"
    and bs: "\<forall>a. a < brk h1 \<longrightarrow> block_size h' a = block_size h1 a"
    and len: "\<forall>L. env_length (lv' L) = env_length (lv1 L) \<and> data_length (lv' L) = data_length (lv1 L)"
    by blast
  have "brk h \<le> brk h'" using b by (simp add: h1_def)
  moreover have "\<forall>a. a < brk h \<longrightarrow> block_size h' a = block_size h a"
    using bs by (simp add: h1_def block_size_def)
  moreover have "\<forall>L. env_length (lv' L) = env_length (lv L) \<and> data_length (lv' L) = data_length (lv L)"
    using len by (simp add: lv1_def)
  ultimately show ?case unfolding step r using p by simp
qed

lemma alloc_channels_succeeds:
  "plan h = [] \<Longrightarrow>
   \<exists>h' lvs'. alloc_channels K tsc n i h lvs = (h', lvs', True) \<and> plan h' = [] \<and> brk h \<le> brk h'
     \<and> (\<forall>a. a < brk h \<longrightarrow> block_size h' a = block_size h a)
     \<and> (\<forall>c L. env_length (lvs' c L) = env_length (lvs c L)
              \<and> data_length (lvs' c L) = data_length (lvs c L))"
proof (induction n arbitrary: i h lvs)
  case 0
  then show ?case by simp
next
  case (Suc n)
  from alloc_levels_succeeds [OF Suc.prems, of K 0 "tsc div EnvelopeScaleFactor" "lvs i"]
  obtain h1 lv1 where r1: "alloc_levels K 0 (tsc div EnvelopeScaleFactor) h (lvs i) = (h1, lv1, True)"
    and p1: "plan h1 = []" and b1: "brk h \<le> brk h1"
    and bs1: "\<forall>a. a < brk h \<longrightarrow> block_size h1 a = block_size h a"
    and len1: "\<forall>L. env_length (lv1 L) = env_length (lvs i L) \<and> data_length (lv1 L) = data_length (lvs i L)"
    by blast
  have step: "alloc_channels K tsc (Suc n) i h lvs = alloc_channels K tsc n (Suc i) h1 (lvs(i := lv1))"
    by (simp add: r1)
  from Suc.IH [OF p1, of "Suc i" "lvs(i := lv1)"]
  obtain h' lvs' where r: "alloc_channels K tsc n (Suc i) h1 (lvs(i := lv1)) = (h', lvs', True)"
    and p: "plan h' = []" and b: "brk h1 \<le> brk h'"
    and bs: "\<forall>a. a < brk h1 \<longrightarrow> block_size h' a = block_size h1 a"
    and len: "\<forall>c L. env_length (lvs' c L) = env_length ((lvs(i := lv1)) c L)
              \<and> data_length (lvs' c L) = data_length ((lvs(i := lv1)) c L)"
    by blast
  have "brk h \<le> brk h'" using b b1 by simp
  moreover have "\<forall>a. a < brk h \<longrightarrow> block_size h' a = block_size h a"
    using bs bs1 b1 by auto
  moreover have "\<forall>c L. env_length (lvs' c L) = env_length (lvs c L)
              \<and> data_length (lvs' c L) = data_length (lvs c L)"
    using len len1 by (auto simp: fun_upd_def)
  ultimately show ?case unfolding step r using p by simp
qed

lemma setup_alloc_fresh:
  assumes "plan h = []" and "data s = None" and "envelope_pointers K s = []"
  shows "\<exists>h' lvs'. setup_alloc K h s sz
       = (h', s\<lparr>data := Some (brk h), ch_index := [], envelope_levels := lvs'\<rparr>, True)
     \<and> plan h' = [] \<and> block_size h' (brk h) = Some (unat sz)
     \<and> (\<forall>c L. env_length (lvs' c L) = 0 \<and> data_length (lvs' c L) = 0)"
proof -
  define h2 where "h2 = h\<lparr>live := (brk h, unat sz) # live h, brk := Suc (brk h)\<rparr>"
  have p2: "plan h2 = []" using assms(1) by (simp add: h2_def)
  from alloc_channels_succeeds [OF p2, of K "total_sample_count s" "unat (channel_num s)" 0
      "\<lambda>i level. zero_envelope"]
  obtain h' lvs' where r: "alloc_channels K (total_sample_count s) (unat (channel_num s)) 0 h2
        (\<lambda>i level. zero_envelope) = (h', lvs', True)"
    and p: "plan h' = []"
    and bs: "\<forall>a. a < brk h2 \<longrightarrow> block_size h' a = block_size h2 a"
    and len: "\<forall>c L. env_length (lvs' c L) = env_length zero_envelope
              \<and> data_length (lvs' c L) = data_length zero_envelope"
    by blast
  have ptrs: "envelope_pointers K (s\<lparr>ch_index := [], data := Some (brk h)\<rparr>) = []"
    using assms(3) by (simp add: envelope_pointers_def)
  have "setup_alloc K h s sz
       = (h', s\<lparr>data := Some (brk h), ch_index := [], envelope_levels := lvs'\<rparr>, True)"
    using assms(1,2) ptrs r
    by (simp add: setup_alloc_def free_data_def malloc_plan_empty free_envelop_def
          h2_def [symmetric])
  moreover have "block_size h' (brk h) = Some (unat sz)"
    using bs by (simp add: h2_def block_size_def)
  moreover have "\<forall>c L. env_length (lvs' c L) = 0 \<and> data_length (lvs' c L) = 0"
    using len by (simp add: zero_envelope_def)
  ultimately show ?thesis using p by blast
qed

lemma envelope_pointers_none:
  "\<forall>c L. samples (envelope_levels s c L) = None \<Longrightarrow> envelope_pointers K s = []"
  by (simp add: envelope_pointers_def)

text \<open>The first setup of a snapshot that holds no buffer and no envelope array, in
  replace-on-arrival mode with envelope generation enabled, when every allocation succeeds
  and the payload fits: the raw buffer is allocated, the pyramid starts from length zero
  everywhere, the payload is stored and the build pass runs over it.\<close>

lemma first_payload_fresh:
  assumes "plan h = []" and "data s = None"
    and "\<forall>c L. samples (envelope_levels s c L) = None"
    and chn: "chn = (of_nat (length (filter snd che)) :: u32)" "chn \<noteq> 0"
    and "tsc \<noteq> total_sample_count s"
    and "envelope_en s" and "num_samples dso \<noteq> 0"
    and "unat (num_samples dso * ucast chn) \<le> unat (tsc * ucast chn + 8)"
    and "unat (num_samples dso * ucast chn) \<le> length (dso_data dso)"
  shows "\<exists>h' s0. first_payload K h s dso tsc che False
       = Inr (h', (append_payload_to_envelope_levels K (samplerate_tog dso) s0)
                    \<lparr>have_data := True, last_ended := False\<rparr>)
     \<and> sample_count s0 = num_samples dso \<and> channel_num s0 = chn
     \<and> total_sample_count s0 = tsc \<and> \<not> instant s0 \<and> envelope_en s0
     \<and> data s0 = Some (brk h) \<and> block_size h' (brk h) = Some (unat (tsc * ucast chn + 8))
     \<and> (\<forall>c L. env_length (envelope_levels s0 c L) = 0 \<and> data_length (envelope_levels s0 c L) = 0)"
proof -
  define s1 where "s1 = s\<lparr>total_sample_count := tsc, channel_num := chn, instant := False,
                       ch_enable := che\<rparr>"
  define sz where "sz = tsc * ucast chn + 8"
  have ptrs: "envelope_pointers K s1 = []"
    using assms(3) by (intro envelope_pointers_none) (simp add: s1_def)
  have d1: "data s1 = None" using assms(2) by (simp add: s1_def)
  from setup_alloc_fresh [OF assms(1) d1 ptrs, of sz]
  obtain h' lvs' where sa: "setup_alloc K h s1 sz
       = (h', s1\<lparr>data := Some (brk h), ch_index := [], envelope_levels := lvs'\<rparr>, True)"
    and bs: "block_size h' (brk h) = Some (unat sz)"
    and len: "\<forall>c L. env_length (lvs' c L) = 0 \<and> data_length (lvs' c L) = 0"
    by blast
  define s2 where "s2 = s1\<lparr>data := Some (brk h), ch_index := [], envelope_levels := lvs',
                         capacity := sz, memory_failed := False\<rparr>"
  have s2: "\<not> instant s2" "channel_num s2 \<noteq> 0" "data s2 = Some (brk h)" "channel_num s2 = chn"
    "envelope_en s2"
    using chn(2) assms(7) by (simp_all add: s2_def s1_def)
  from append_payload_replace [OF s2(1,2) assms(8) s2(3) bs, of K]
  obtain h'' where ap: "append_payload K h' s2 dso =
     Inr (h'', (append_payload_to_envelope_levels K (samplerate_tog dso)
                      (s2\<lparr>sample_count := num_samples dso\<rparr>))\<lparr>have_data := True\<rparr>)"
    and live: "live h'' = live h'"
    using assms(9,10) s2(4,5) by (auto simp: sz_def)
  have bs'': "block_size h'' (brk h) = Some (unat sz)"
    using bs live by (simp add: block_size_def)
  have "first_payload K h s dso tsc che False
       = Inr (h'', (append_payload_to_envelope_levels K (samplerate_tog dso)
                      (s2\<lparr>sample_count := num_samples dso\<rparr>))
                    \<lparr>have_data := True, last_ended := False\<rparr>)"
  proof -
    have szeq: "total_sample_count s1 * ucast (channel_num s1) + 8 = sz"
      by (simp add: s1_def sz_def)
    have s2eq: "(s1\<lparr>data := Some (brk h), ch_index := [], envelope_levels := lvs'\<rparr>)
        \<lparr>capacity := sz, memory_failed := False\<rparr> = s2"
      by (simp add: s2_def)
    show ?thesis
      using chn(2) assms(6)
      by (simp add: first_payload_def Let_def chn(1) [symmetric] s1_def [symmetric]
            szeq sa s2eq ap)
  qed
  moreover have "\<forall>c L. env_length (envelope_levels (s2\<lparr>sample_count := num_samples dso\<rparr>) c L) = 0
      \<and> data_length (envelope_levels (s2\<lparr>sample_count := num_samples dso\<rparr>) c L) = 0"
    using len by (simp add: s2_def)
  ultimately show ?thesis
    using bs'' s2 by (intro exI [of _ h''] exI [of _ "s2\<lparr>sample_count := num_samples dso\<rparr>"])
      (simp add: sz_def s2_def s1_def)
qed

lemma build_frame_flags [simp]:
  "instant (append_payload_to_envelope_levels K header s) = instant s"
  "envelope_en (append_payload_to_envelope_levels K header s) = envelope_en s"
  by (simp_all add: append_payload_to_envelope_levels_def split: prod.split)

lemma build_frame_store:
  "data (append_payload_to_envelope_levels K header s) = data s"
  "total_sample_count (append_payload_to_envelope_levels K header s) = total_sample_count s"
  by (simp_all add: append_payload_to_envelope_levels_def split: prod.split)

text \<open>A run through the interface: a new snapshot, \<^verbatim>\<open>enable_envelope(true)\<close>, then
  \<^verbatim>\<open>first_payload\<close> for 512 samples of two channels in replace-on-arrival mode with a
  payload of 512 samples that asks for a header build.\<close>

lemma run_512:
  "\<exists>h s0. first_payload 10 heap0 (enable_envelope 10 True DsoSnapshot) (payload 2 512 7 True) 512
          [(0, True), (1, True)] False
       = Inr (h, (append_payload_to_envelope_levels 10 True s0)
                    \<lparr>have_data := True, last_ended := False\<rparr>)
     \<and> sample_count s0 = 512 \<and> channel_num s0 = 2 \<and> \<not> instant s0 \<and> envelope_en s0
     \<and> data s0 = Some 1 \<and> block_size h 1 = Some 1032
     \<and> (\<forall>c L. env_length (envelope_levels s0 c L) = 0 \<and> data_length (envelope_levels s0 c L) = 0)"
proof -
  define s where "s = enable_envelope 10 True DsoSnapshot"
  have lv: "envelope_levels s = (\<lambda>i level. zero_envelope)"
    by (simp add: s_def enable_envelope_def append_payload_to_envelope_levels_def
          envelope_channels_closed DsoSnapshot_def zero_envelope_def fun_eq_iff
          EnvelopeScaleFactor_256)
  have s: "data s = None" "\<forall>c L. samples (envelope_levels s c L) = None" "envelope_en s"
    "512 \<noteq> total_sample_count s"
    unfolding lv
    by (simp_all add: s_def enable_envelope_def DsoSnapshot_def zero_envelope_def
          build_frame_store)
  have h: "plan heap0 = []" "brk heap0 = 1" by (simp_all add: heap0_def)
  have chn: "(2::u32) = of_nat (length (filter snd [(0::int, True), (1, True)]))" "(2::u32) \<noteq> 0"
    by simp_all
  have dso: "num_samples (payload 2 512 7 True) \<noteq> 0"
    "unat (num_samples (payload 2 512 7 True) * ucast (2::u32)) \<le> unat ((512::u64) * ucast (2::u32) + 8)"
    "unat (num_samples (payload 2 512 7 True) * ucast (2::u32)) \<le> length (dso_data (payload 2 512 7 True))"
    "samplerate_tog (payload 2 512 7 True)" "num_samples (payload 2 512 7 True) = 512"
    by (simp_all add: payload_def)
  have tog: "samplerate_tog (payload 2 512 7 True) = True" by (simp add: payload_def)
  from first_payload_fresh [OF h(1) s(1,2) chn s(4,3) dso(1,2,3), of 10]
  show ?thesis unfolding s_def [symmetric] h(2) dso(5) tog by auto
qed

section \<open>The pyramid length law\<close>

lemma unat_of_nat_div:
  fixes x :: u64
  shows "unat (of_nat (unat x div d) :: u64) = unat x div d"
proof -
  have "unat x div d \<le> unat x" by (rule div_le_dividend)
  also have "unat x < 2 ^ LENGTH(64)" using unat_lt_u64 [of x] by simp
  finally have "unat x div d mod 2 ^ LENGTH(64) = unat x div d" by (rule mod_less)
  then show ?thesis by (simp only: unat_of_nat)
qed

lemma build_length:
  assumes "c < unat (channel_num s)" and "L < K"
    and "no_stale_levels K (unat (channel_num s)) (unat (sample_count s)) (envelope_levels s)"
  shows "unat (env_length (envelope_levels (append_payload_to_envelope_levels K header s) c L))
     = unat (sample_count s) div 256 ^ (L + 1)"
proof (cases "unat (sample_count s) div 256 ^ (L + 1) = 0")
  case True
  then have "env_length (envelope_levels s c L) = 0"
    using assms by (simp add: no_stale_levels_def)
  then show ?thesis
    using True by (simp add: build_level_closed [OF assms(1,2)] del: power_Suc)
next
  case False
  then show ?thesis
    by (simp add: build_level_closed [OF assms(1,2)] unat_of_nat_div del: power_Suc)
qed

text \<open>C3, as amended: after a full (header) envelope build over \<open>n\<close> stored samples on a
  pyramid that holds no stale length (every level of an active channel that a build over
  \<open>n\<close> samples leaves at zero is zero before, as after \<^verbatim>\<open>init\<close>, \<^verbatim>\<open>clear\<close>, an allocating
  setup, or a build over at most \<open>n\<close> samples), for every active channel level 0 has
  \<open>n div 256\<close> entries and every higher level has the length of the level below divided by
  256, rounded down.\<close>

theorem pyramid_length_law:
  assumes "0 < K"
    and "no_stale_levels K (unat (channel_num s)) (unat (sample_count s)) (envelope_levels s)"
  shows "\<forall>c < unat (channel_num s).
     pyramid_law K (unat (sample_count s))
       (envelope_levels (append_payload_to_envelope_levels K True s) c)"
proof (intro allI impI)
  fix c assume c: "c < unat (channel_num s)"
  have len: "unat (env_length (envelope_levels (append_payload_to_envelope_levels K True s) c L))
     = unat (sample_count s) div 256 ^ (L + 1)" if "L < K" for L
    using c that assms(2) by (rule build_length)
  have "unat (sample_count s) div 256 ^ (L - 1 + 1) div 256
      = unat (sample_count s) div 256 ^ (L + 1)" if "0 < L" for L
  proof -
    have "unat (sample_count s) div 256 ^ L div 256
        = unat (sample_count s) div (256 ^ L * 256)"
      by (rule div_mult2_eq [symmetric])
    also have "(256::nat) ^ L * 256 = 256 ^ (L + 1)" by simp
    finally show ?thesis using that by simp
  qed
  then show "pyramid_law K (unat (sample_count s))
       (envelope_levels (append_payload_to_envelope_levels K True s) c)"
    unfolding pyramid_law_def using len [OF assms(1)] len by (auto simp del: power_Suc)
qed


lemma build_frame [simp]:
  "sample_count (append_payload_to_envelope_levels K header s) = sample_count s"
  "channel_num (append_payload_to_envelope_levels K header s) = channel_num s"
  "total_sample_count (append_payload_to_envelope_levels K header s) = total_sample_count s"
  "data (append_payload_to_envelope_levels K header s) = data s"
  by (simp_all add: append_payload_to_envelope_levels_def split: prod.split)

text \<open>A new snapshot, \<^verbatim>\<open>enable_envelope(true)\<close>, then a setup for 512 samples of two
  channels whose payload of 512 samples asks for a header build: both channels get two
  entries at level 0 and none above.\<close>

theorem pyramid_length_law_witness:
  "\<exists>h s. first_payload 10 heap0 (enable_envelope 10 True DsoSnapshot) (payload 2 512 7 True) 512
          [(0, True), (1, True)] False = Inr (h, s)
     \<and> sample_count s = 512
     \<and> pyramid_law 10 512 (envelope_levels s 0) \<and> pyramid_law 10 512 (envelope_levels s 1)
     \<and> env_length (envelope_levels s 1 0) = 2 \<and> env_length (envelope_levels s 1 1) = 0"
proof -
  from run_512 obtain h s0 where
    fp: "first_payload 10 heap0 (enable_envelope 10 True DsoSnapshot) (payload 2 512 7 True) 512
          [(0, True), (1, True)] False
       = Inr (h, (append_payload_to_envelope_levels 10 True s0)
                    \<lparr>have_data := True, last_ended := False\<rparr>)"
    and s0: "sample_count s0 = 512" "channel_num s0 = 2"
    and zero: "\<forall>c L. env_length (envelope_levels s0 c L) = 0 \<and> data_length (envelope_levels s0 c L) = 0"
    by blast
  have K: "(0::nat) < 10" by simp
  have fresh: "no_stale_levels 10 (unat (channel_num s0)) (unat (sample_count s0)) (envelope_levels s0)"
    using zero by (simp add: no_stale_levels_def)
  from pyramid_length_law [OF K fresh]
  have law: "pyramid_law 10 512 (envelope_levels (append_payload_to_envelope_levels 10 True s0) 0)"
    "pyramid_law 10 512 (envelope_levels (append_payload_to_envelope_levels 10 True s0) 1)"
    unfolding s0 by simp_all
  from law(2) have "unat (env_length (envelope_levels (append_payload_to_envelope_levels 10 True s0) 1 0)) = 2"
    "unat (env_length (envelope_levels (append_payload_to_envelope_levels 10 True s0) 1 1)) = 0"
    by (simp_all add: pyramid_law_def)
  then have "env_length (envelope_levels (append_payload_to_envelope_levels 10 True s0) 1 0) = 2"
    "env_length (envelope_levels (append_payload_to_envelope_levels 10 True s0) 1 1) = 0"
    by (simp_all add: word_unat_eq_iff)
  with law fp s0 show ?thesis by simp
qed

text \<open>The same run, followed by a payload of 100 samples (replace-on-arrival mode, header
  build): the build returns at channel 0, and channel 1 keeps the two entries of the build
  over 512 samples at level 0, although \<open>100 div 256 = 0\<close>.\<close>

theorem pyramid_length_law_stale:
  "(case first_payload 10 heap0 (enable_envelope 10 True DsoSnapshot) (payload 2 512 7 True) 512
           [(0, True), (1, True)] False of
      Inl f \<Rightarrow> False
    | Inr (h1, s1) \<Rightarrow>
        (case append_payload 10 h1 s1 (payload 2 100 7 True) of
           Inl f \<Rightarrow> False
         | Inr (h2, s2) \<Rightarrow>
             sample_count s2 = 100 \<and> channel_num s2 = 2
             \<and> env_length (envelope_levels s2 1 0) = 2
             \<and> \<not> pyramid_law 10 100 (envelope_levels s2 1)))"
proof -
  from run_512 obtain h1 s0 where
    fp: "first_payload 10 heap0 (enable_envelope 10 True DsoSnapshot) (payload 2 512 7 True) 512
          [(0, True), (1, True)] False
       = Inr (h1, (append_payload_to_envelope_levels 10 True s0)
                    \<lparr>have_data := True, last_ended := False\<rparr>)"
    and s0: "sample_count s0 = 512" "channel_num s0 = 2" "\<not> instant s0" "envelope_en s0"
      "data s0 = Some 1" "block_size h1 1 = Some 1032"
    by blast
  define s1 where "s1 = (append_payload_to_envelope_levels 10 True s0)
                    \<lparr>have_data := True, last_ended := False\<rparr>"
  have c0: "1 < unat (channel_num s0)" and L: "(0::nat) < 10" by (simp_all add: s0)
  have len1: "env_length (envelope_levels s1 1 0) = 2"
    using build_level_closed [OF c0 L, of True] by (simp add: s1_def s0)
  have s1: "\<not> instant s1" "channel_num s1 \<noteq> 0" "data s1 = Some 1" "envelope_en s1"
    "channel_num s1 = 2"
    by (simp_all add: s1_def s0)
  have dso: "num_samples (payload 2 100 7 True) \<noteq> 0"
    "unat (num_samples (payload 2 100 7 True) * ucast (channel_num s1)) \<le> 1032"
    "unat (num_samples (payload 2 100 7 True) * ucast (channel_num s1))
       \<le> length (dso_data (payload 2 100 7 True))"
    "num_samples (payload 2 100 7 True) = 100" "samplerate_tog (payload 2 100 7 True) = True"
    by (simp_all add: payload_def s1(5))
  define s2 where "s2 = (append_payload_to_envelope_levels 10 True (s1\<lparr>sample_count := 100\<rparr>))
                    \<lparr>have_data := True\<rparr>"
  from append_payload_replace [OF s1(1,2) dso(1) s1(3) s0(6) dso(2,3), of 10]
  obtain h2 where ap: "append_payload 10 h1 s1 (payload 2 100 7 True) = Inr (h2, s2)"
    unfolding dso(4,5) s2_def using s1(4) by auto
  have c1: "1 < unat (channel_num (s1\<lparr>sample_count := 100\<rparr>))" by (simp add: s1(5))
  have len2: "env_length (envelope_levels s2 1 0) = 2"
    using build_level_closed [OF c1 L, of True] len1 by (simp add: s2_def)
  then have "\<not> pyramid_law 10 100 (envelope_levels s2 1)"
    by (simp add: pyramid_law_def)
  moreover have "sample_count s2 = 100" "channel_num s2 = 2" by (simp_all add: s2_def s1(5))
  ultimately show ?thesis
    unfolding fp s1_def [symmetric] using ap len2 by simp
qed

section \<open>The recorded capacity of a level\<close>

lemma new_data_length_round:
  assumes "unat (env_length e) + 4095 < 2 ^ 64"
  shows "unat (new_data_length e) = (unat (env_length e) + 4095) div 4096 * 4096"
proof -
  define len where "len = env_length e"
  have lt: "unat len + 4095 < 2 ^ 64" using assms by (simp only: len_def)
  have u: "unat (4095 :: u64) = 4095" "unat (4096 :: u64) = 4096" by simp_all
  have "unat len + unat (4095 :: u64) < 2 ^ 64" unfolding u by (rule lt)
  from unat_add_u64 [OF this] have a: "unat (len + 4095) = unat len + 4095"
    unfolding u .
  have d: "unat ((len + 4095) div 4096) = (unat len + 4095) div 4096"
    unfolding unat_div a u ..
  have "(unat len + 4095) div 4096 * 4096 \<le> unat len + 4095"
    by (rule div_times_less_eq_dividend)
  then have "(unat len + 4095) div 4096 * 4096 < 2 ^ 64" using lt by (rule le_less_trans)
  then have "unat ((len + 4095) div 4096) * unat (4096 :: u64) < 2 ^ 64"
    unfolding d u .
  from unat_mult_u64 [OF this]
  have r: "unat ((len + 4095) div 4096 * 4096) = (unat len + 4095) div 4096 * 4096"
    unfolding d u .
  have w: "new_data_length e = (len + 4095) div 4096 * 4096"
    by (simp add: new_data_length_def EnvelopeDataUnit_def len_def add.commute)
  show ?thesis unfolding w using r unfolding len_def .
qed

lemma reallocate_keeps:
  "samples (reallocate_envelope (e\<lparr>env_length := x\<rparr>)) = samples e
   \<and> data_length e \<le> data_length (reallocate_envelope (e\<lparr>env_length := x\<rparr>))"
  by (simp add: reallocate_envelope_data_length)

lemma level_after_keeps:
  "samples (level_after y d e) = samples e \<and> data_length e \<le> data_length (level_after y d e)"
  unfolding level_after_def using reallocate_keeps [where e = e] by (simp del: power_Suc)

lemma channel_after_keeps:
  "samples (channel_after K sc lv L) = samples (lv L)
   \<and> data_length (lv L) \<le> data_length (channel_after K sc lv L)"
proof (cases "L = 0")
  case True
  have "channel_after K sc lv 0
      = reallocate_envelope ((lv 0)\<lparr>env_length := sc div EnvelopeScaleFactor\<rparr>)"
    using higher_levels_closed [of 1 "K - 1" _ 0] by (simp add: channel_after_def)
  then show ?thesis using True reallocate_keeps [where e = "lv 0"] by simp
next
  case False
  then show ?thesis
    using level_after_keeps [where e = "lv L"]
    by (simp add: channel_after_def higher_levels_closed)
qed

lemma build_keeps:
  "samples (envelope_levels (append_payload_to_envelope_levels K header s) c L)
     = samples (envelope_levels s c L)
   \<and> data_length (envelope_levels s c L)
       \<le> data_length (envelope_levels (append_payload_to_envelope_levels K header s) c L)"
proof -
  have lv: "envelope_levels (append_payload_to_envelope_levels K header s) =
     fst (envelope_channels K (sample_count s) (unat (channel_num s)) 0 (envelope_levels s))"
    by (simp add: append_payload_to_envelope_levels_def split: prod.splits)
  show ?thesis
    unfolding lv envelope_channels_closed
    using channel_after_keeps [of K "sample_count s" "envelope_levels s c" L]
    by simp
qed


lemma new_data_length_reallocate [simp]:
  "new_data_length (reallocate_envelope e) = new_data_length e"
  by (simp add: reallocate_envelope_def)

lemma build_level_bound:
  fixes sc :: u64
  shows "unat sc div 256 ^ (L + 1) + 4095 < 2 ^ 64"
proof -
  have "unat sc div 256 ^ (L + 1) = unat sc div 256 div 256 ^ L"
    by (simp add: div_mult2_eq)
  also have "\<dots> \<le> unat sc div 256" by (rule div_le_dividend)
  finally have "unat sc div 256 ^ (L + 1) \<le> unat sc div 256" .
  moreover have "unat sc div 256 < 2 ^ 56" using unat_lt_u64 [of sc] by simp
  ultimately show ?thesis by simp
qed

lemma build_capacity:
  assumes "c < unat (channel_num s)" and "L < K"
    and "unat (sample_count s) div 256 ^ (L + 1) \<noteq> 0"
  shows "data_length (envelope_levels (append_payload_to_envelope_levels K header s) c L)
      = max (data_length (envelope_levels s c L))
            (new_data_length (envelope_levels (append_payload_to_envelope_levels K header s) c L))"
    and "unat (env_length (envelope_levels (append_payload_to_envelope_levels K header s) c L))
      = unat (sample_count s) div 256 ^ (L + 1)"
    and "unat (new_data_length (envelope_levels (append_payload_to_envelope_levels K header s) c L))
      = (unat (sample_count s) div 256 ^ (L + 1) + 4095) div 4096 * 4096"
proof -
  let ?e' = "envelope_levels (append_payload_to_envelope_levels K header s) c L"
  have e': "?e' = reallocate_envelope ((envelope_levels s c L)
       \<lparr>env_length := of_nat (unat (sample_count s) div 256 ^ (L + 1))\<rparr>)"
    using assms(3) by (simp add: build_level_closed [OF assms(1,2)] del: power_Suc)
  show "data_length ?e' = max (data_length (envelope_levels s c L)) (new_data_length ?e')"
    unfolding e' by (simp add: reallocate_envelope_data_length)
  show len: "unat (env_length ?e') = unat (sample_count s) div 256 ^ (L + 1)"
    unfolding e' by (simp add: unat_of_nat_div del: power_Suc)
  have "unat (env_length ?e') + 4095 < 2 ^ 64"
    unfolding len by (rule build_level_bound)
  from new_data_length_round [OF this]
  show "unat (new_data_length ?e') = (unat (sample_count s) div 256 ^ (L + 1) + 4095) div 4096 * 4096"
    unfolding len .
qed

text \<open>C6, as amended: during envelope construction the backing \<^verbatim>\<open>samples\<close> array of a
  level is never reallocated (the pass has no access to the heap and leaves every
  \<^verbatim>\<open>samples\<close> pointer as it is); what grows is the recorded capacity \<^verbatim>\<open>data_length\<close>:
  it never gets smaller, and for every level of an active channel whose new length is not
  zero it becomes the larger of its old value and the new length rounded up to a multiple
  of \<^verbatim>\<open>EnvelopeDataUnit\<close> (4096 entries).\<close>

theorem envelope_capacity_bookkeeping:
  "samples (envelope_levels (append_payload_to_envelope_levels K header s) c L)
     = samples (envelope_levels s c L)
   \<and> data_length (envelope_levels s c L)
       \<le> data_length (envelope_levels (append_payload_to_envelope_levels K header s) c L)
   \<and> (c < unat (channel_num s) \<and> L < K \<and> unat (sample_count s) div 256 ^ (L + 1) \<noteq> 0 \<longrightarrow>
        data_length (envelope_levels (append_payload_to_envelope_levels K header s) c L)
          = max (data_length (envelope_levels s c L))
              (new_data_length (envelope_levels (append_payload_to_envelope_levels K header s) c L))
        \<and> unat (env_length (envelope_levels (append_payload_to_envelope_levels K header s) c L))
          = unat (sample_count s) div 256 ^ (L + 1)
        \<and> unat (new_data_length (envelope_levels (append_payload_to_envelope_levels K header s) c L))
          = (unat (sample_count s) div 256 ^ (L + 1) + 4095) div 4096 * 4096)"
  using build_keeps [of K header s c L] build_capacity [of c s L K header] by blast

text \<open>In the run over 512 samples of two channels, level 0 of channel 0 gets two entries
  and its recorded capacity rises from 0 to 4096.\<close>

theorem envelope_capacity_bookkeeping_witness:
  "\<exists>h s. first_payload 10 heap0 (enable_envelope 10 True DsoSnapshot) (payload 2 512 7 True) 512
          [(0, True), (1, True)] False = Inr (h, s)
     \<and> unat (env_length (envelope_levels s 0 0)) = 2
     \<and> unat (data_length (envelope_levels s 0 0)) = 4096"
proof -
  from run_512 obtain h s0 where
    fp: "first_payload 10 heap0 (enable_envelope 10 True DsoSnapshot) (payload 2 512 7 True) 512
          [(0, True), (1, True)] False
       = Inr (h, (append_payload_to_envelope_levels 10 True s0)
                    \<lparr>have_data := True, last_ended := False\<rparr>)"
    and s0: "sample_count s0 = 512" "channel_num s0 = 2"
    and zero: "\<forall>c L. env_length (envelope_levels s0 c L) = 0 \<and> data_length (envelope_levels s0 c L) = 0"
    by blast
  let ?e' = "envelope_levels (append_payload_to_envelope_levels 10 True s0) 0 0"
  have pre: "0 < unat (channel_num s0) \<and> (0::nat) < 10 \<and> unat (sample_count s0) div 256 ^ (0 + 1) \<noteq> 0"
    by (simp add: s0)
  have old: "data_length (envelope_levels s0 0 0) = 0" "unat (sample_count s0) = 512"
    using zero by (simp_all add: s0)
  from envelope_capacity_bookkeeping [of 10 True s0 0 0] pre
  have "data_length ?e' = max 0 (new_data_length ?e')"
    "unat (env_length ?e') = 2" "unat (new_data_length ?e') = 4096"
    unfolding old by simp_all
  then have "unat (env_length ?e') = 2" "unat (data_length ?e') = 4096" by (simp_all add: max_def)
  with fp show ?thesis by simp
qed

text \<open>A level with 5000 required entries and a recorded capacity of 4096, its array at
  address 2: \<^verbatim>\<open>reallocate_envelope\<close> sets the recorded capacity to 8192 and leaves the
  array alone; the build pass likewise (here on a heap whose block 2 has the 8192 bytes of
  4096 entries).\<close>

theorem samples_array_not_grown:
  "reallocate_envelope \<lparr>env_length = 5000, data_length = 4096, samples = Some 2\<rparr>
     = \<lparr>env_length = 5000, data_length = 8192, samples = Some 2\<rparr>
   \<and> block_size (heap0\<lparr>live := [(2, 8192)]\<rparr>) 2 = Some (4096 * unat sizeof_EnvelopeSample)"
  by (simp add: reallocate_envelope_def new_data_length_def EnvelopeDataUnit_def block_size_def
        heap0_def sizeof_EnvelopeSample_def)

section \<open>Switching envelope generation off\<close>

text \<open>C10: \<^verbatim>\<open>enable_envelope(false)\<close> changes only the flag \<^verbatim>\<open>_envelope_en\<close>:
  \<^verbatim>\<open>_envelope_done\<close>, every level of the pyramid (length, capacity and samples pointer),
  the raw buffer pointer and the counters stay as they are, and the heap is not touched.
  So \<^verbatim>\<open>get_envelope_section\<close> returns the same section as before; once the pyramid is
  complete and the chosen level and bucket range are not empty, it still returns a
  section that is not empty.\<close>

theorem enable_envelope_false_frame:
  "enable_envelope K False s = s\<lparr>envelope_en := False\<rparr>
   \<and> envelope_done (enable_envelope K False s) = envelope_done s
   \<and> envelope_levels (enable_envelope K False s) = envelope_levels s
   \<and> data (enable_envelope K False s) = data s
   \<and> capacity (enable_envelope K False s) = capacity s
   \<and> sample_count (enable_envelope K False s) = sample_count s
   \<and> total_sample_count (enable_envelope K False s) = total_sample_count s
   \<and> ring_sample_count (enable_envelope K False s) = ring_sample_count s
   \<and> get_envelope_section K lg (enable_envelope K False s) sec st en ml pr
       = get_envelope_section K lg s sec st en ml pr
   \<and> (envelope_done s \<and> en \<le> get_sample_count s \<and> st \<le> en \<and> 0 < ml
        \<and> lv = nat (max (lg ml - 1) 0) \<and> (lv + 1) * EnvelopeScalePower < 31 \<and> lv < K
        \<and> env_length (envelope_levels s pr lv) \<noteq> 0
        \<and> drop_bit ((lv + 1) * EnvelopeScalePower) st \<noteq> drop_bit ((lv + 1) * EnvelopeScalePower) en
      \<longrightarrow> (\<exists>sec'. get_envelope_section K lg (enable_envelope K False s) sec st en ml pr = Inr sec'
             \<and> sec_length sec' = drop_bit ((lv + 1) * EnvelopeScalePower) en
                                 - drop_bit ((lv + 1) * EnvelopeScalePower) st
             \<and> sec_length sec' \<noteq> 0))"
proof -
  have frame: "enable_envelope K False s = s\<lparr>envelope_en := False\<rparr>"
    by (simp add: enable_envelope_def)
  have same: "get_envelope_section K lg (s\<lparr>envelope_en := False\<rparr>) sec st en ml pr
       = get_envelope_section K lg s sec st en ml pr"
    by (simp add: get_envelope_section_def get_sample_count_def Let_def)
  have nonempty: "\<exists>sec'. get_envelope_section K lg s sec st en ml pr = Inr sec'
             \<and> sec_length sec' = drop_bit ((lv + 1) * EnvelopeScalePower) en
                                 - drop_bit ((lv + 1) * EnvelopeScalePower) st
             \<and> sec_length sec' \<noteq> 0"
    if "envelope_done s" "en \<le> get_sample_count s" "st \<le> en" "0 < ml"
      "lv = nat (max (lg ml - 1) 0)" "(lv + 1) * EnvelopeScalePower < 31" "lv < K"
      "env_length (envelope_levels s pr lv) \<noteq> 0"
      "drop_bit ((lv + 1) * EnvelopeScalePower) st \<noteq> drop_bit ((lv + 1) * EnvelopeScalePower) en"
  proof -
    have "drop_bit ((lv + 1) * EnvelopeScalePower) en - drop_bit ((lv + 1) * EnvelopeScalePower) st \<noteq> 0"
      using that(9) by simp
    then show ?thesis
      using that(1-4,6-8) unfolding that(5)
      by (simp add: get_envelope_section_def Let_def)
  qed
  have imp: "envelope_done s \<and> en \<le> get_sample_count s \<and> st \<le> en \<and> 0 < ml
        \<and> lv = nat (max (lg ml - 1) 0) \<and> (lv + 1) * EnvelopeScalePower < 31 \<and> lv < K
        \<and> env_length (envelope_levels s pr lv) \<noteq> 0
        \<and> drop_bit ((lv + 1) * EnvelopeScalePower) st \<noteq> drop_bit ((lv + 1) * EnvelopeScalePower) en
      \<longrightarrow> (\<exists>sec'. get_envelope_section K lg s sec st en ml pr = Inr sec'
             \<and> sec_length sec' = drop_bit ((lv + 1) * EnvelopeScalePower) en
                                 - drop_bit ((lv + 1) * EnvelopeScalePower) st
             \<and> sec_length sec' \<noteq> 0)"
    using nonempty by blast
  show ?thesis unfolding frame same by (intro conjI imp refl) simp_all
qed

text \<open>The pyramid built by the run over 512 samples of two channels, then switched off:
  the section of channel 0 for the samples 0 to 512 at level 0 has its two entries.\<close>

theorem enable_envelope_false_frame_witness:
  "\<exists>h s sec'. first_payload 10 heap0 (enable_envelope 10 True DsoSnapshot) (payload 2 512 7 True) 512
          [(0, True), (1, True)] False = Inr (h, s)
     \<and> envelope_done s
     \<and> get_envelope_section 10 (\<lambda>x. 0) (enable_envelope 10 False s)
          \<lparr>sec_start = 0, sec_scale = 0, sec_length = 0, sec_samples = (None, 0)\<rparr>
          0 512 1 0 = Inr sec'
     \<and> sec_length sec' = 2"
proof -
  from run_512 obtain h s0 where
    fp: "first_payload 10 heap0 (enable_envelope 10 True DsoSnapshot) (payload 2 512 7 True) 512
          [(0, True), (1, True)] False
       = Inr (h, (append_payload_to_envelope_levels 10 True s0)
                    \<lparr>have_data := True, last_ended := False\<rparr>)"
    and s0: "sample_count s0 = 512" "channel_num s0 = 2"
    by blast
  define s where "s = (append_payload_to_envelope_levels 10 True s0)
                    \<lparr>have_data := True, last_ended := False\<rparr>"
  define sec where "sec = \<lparr>sec_start = 0, sec_scale = 0, sec_length = 0, sec_samples = (None, 0::u64)\<rparr>"
  have dn: "envelope_done s"
    by (simp add: s_def envelope_done_build s0)
  have c: "0 < unat (channel_num s0)" and L: "(0::nat) < 10"
    by (simp_all add: s0)
  have len: "env_length (envelope_levels s 0 0) = 2"
    unfolding s_def using build_level_closed [OF c L, of True] by (simp add: s0)
  have pre: "envelope_done s \<and> (512::u64) \<le> get_sample_count s \<and> (0::u64) \<le> 512 \<and> (0::real) < 1
        \<and> (0::nat) = nat (max ((\<lambda>x. 0) (1::real) - 1) 0) \<and> (0 + 1) * EnvelopeScalePower < 31
        \<and> (0::nat) < 10
        \<and> env_length (envelope_levels s 0 0) \<noteq> 0
        \<and> drop_bit ((0 + 1) * EnvelopeScalePower) (0::u64)
            \<noteq> drop_bit ((0 + 1) * EnvelopeScalePower) (512::u64)"
    using dn len by (simp add: get_sample_count_def s_def s0 EnvelopeScalePower_def drop_bit_eq_div)
  from enable_envelope_false_frame [of 10 s "\<lambda>x. 0" sec 0 512 1 0 0] pre
  obtain sec' where "get_envelope_section 10 (\<lambda>x. 0) (enable_envelope 10 False s) sec 0 512 1 0 = Inr sec'"
    and "sec_length sec' = drop_bit ((0 + 1) * EnvelopeScalePower) (512::u64)
                                 - drop_bit ((0 + 1) * EnvelopeScalePower) 0"
    by blast
  then have "get_envelope_section 10 (\<lambda>x. 0) (enable_envelope 10 False s) sec 0 512 1 0 = Inr sec'
      \<and> sec_length sec' = 2"
    by (simp add: EnvelopeScalePower_def drop_bit_eq_div)
  with dn fp show ?thesis unfolding s_def sec_def by blast
qed

section \<open>The root mean square\<close>

text \<open>One chunk over a single-channel buffer whose bytes from \<open>b\<close> to \<open>e\<close> all hold
  \<open>v\<close>.\<close>

lemma vrms_chunk_constant:
  assumes "block_size h a = Some sz" and "e \<le> sz"
    and "\<forall>k. b \<le> k \<and> k < e \<longrightarrow> mem h a k = v"
  shows "vrms_chunk h (Some a) z 1 e b acc
     = Inr (acc + real (e - b) * ((z - real (unat v)) * (z - real (unat v))))"
  using assms
proof (induction "e - b" arbitrary: b acc)
  case 0
  then show ?case by simp
next
  case (Suc n)
  then have lt: "b < e" and n: "n = e - (b + 1)" by simp_all
  have rd: "read_byte h (Some a) b = Inr v"
    using Suc.prems lt by (simp add: read_byte_def)
  have "vrms_chunk h (Some a) z 1 e (b + 1) (acc + (z - real (unat v)) * (z - real (unat v)))
     = Inr (acc + (z - real (unat v)) * (z - real (unat v))
            + real (e - (b + 1)) * ((z - real (unat v)) * (z - real (unat v))))"
    using Suc.prems by (intro Suc.hyps(1) [OF n]) simp_all
  moreover have "real (e - b) = 1 + real (e - (b + 1))" using lt by simp
  ultimately show ?case
    using lt rd by (subst vrms_chunk.simps) (simp add: algebra_simps)
qed


text \<open>C4 at the failing input: one channel, 512 stored samples, every byte of the
  buffer 255, \<^verbatim>\<open>zero_off = 0\<close>.  The first chunk gives \<open>256 * 255\<^sup>2 / 512 = 32512.5\<close>.  The
  second chunk starts from \<^verbatim>\<open>vrms = 32512.5\<close> instead of 0, so the accumulator ends at
  \<open>32512.5 + (32512.5 + 256 * 255\<^sup>2) / 512\<close>, and the result is larger than 255.\<close>

theorem vrms_constant_255_two_chunks:
  "cal_vrms (heap0\<lparr>live := [(1, 520)], mem := (\<lambda>a k. 255)\<rparr>)
      (DsoSnapshot\<lparr>data := Some 1, capacity := 520, sample_count := 512,
                     total_sample_count := 512\<rparr>) 0 0
     = Inr (sqrt (32512.5 + (32512.5 + 256 * 255 * 255) / 512))
   \<and> sqrt (32512.5 + (32512.5 + 256 * 255 * 255) / 512) > 255"
proof -
  define h where "h = heap0\<lparr>live := [(1, 520)], mem := (\<lambda>a k. 255)\<rparr>"
  have bs: "block_size h 1 = Some 520" by (simp add: h_def block_size_def)
  have m: "\<forall>k. b \<le> k \<and> k < e \<longrightarrow> mem h 1 k = 255" for b e by (simp add: h_def)
  have chunk: "vrms_chunk h (Some (Suc 0)) z (Suc 0) e b acc
      = Inr (acc + real (e - b) * ((z - 255) * (z - 255)))" if "e \<le> 520" for z e b acc
    using vrms_chunk_constant [OF bs that m, where z = z and b = b and acc = acc]
    by (simp del: vrms_chunk.simps)
  have l1: "vrms_loop h (Some 1) 0 1 512 512 0 0 0
      = Inr (32512.5 + (32512.5 + 256 * 255 * 255) / 512)"
    by (subst vrms_loop.simps,
        simp add: VrmsScaleFactor_def chunk del: vrms_chunk.simps vrms_loop.simps)+
  have run: "cal_vrms h (DsoSnapshot\<lparr>data := Some 1, capacity := 520, sample_count := 512,
                     total_sample_count := 512\<rparr>) 0 0
     = Inr (sqrt (32512.5 + (32512.5 + 256 * 255 * 255) / 512))"
    using l1 by (simp add: cal_vrms_def get_sample_count_def DsoSnapshot_def del: vrms_loop.simps)
  have "sqrt (255 * 255) < sqrt (32512.5 + (32512.5 + 256 * 255 * 255) / 512)"
    by (subst real_sqrt_less_iff) simp
  then have "255 < sqrt (32512.5 + (32512.5 + 256 * 255 * 255) / 512)" by simp
  with run show ?thesis unfolding h_def by simp
qed

end
